theory Spec2Isabelle
  imports Complex_Main "HOL-Library.Word"
begin

unbundle bit_operations_syntax

section \<open>Randomness provider (src/lib/rng.ts)\<close>

text \<open>
  The TypeScript type \<^verbatim>\<open>RNG = () => number\<close> is a closure over a mutable 32-bit state.
  Both generators of the file return \<^verbatim>\<open>(w >>> 0) / 4294967296\<close> for a 32-bit value
  \<open>w\<close>, so one call of an RNG is modelled as a step function from the closure state to
  the numerator \<open>w\<close> and the next state. JavaScript's \<^verbatim>\<open>^\<close>, \<^verbatim>\<open><<\<close>, \<^verbatim>\<open>>>>\<close>,
  \<^verbatim>\<open>|\<close> and \<^verbatim>\<open>Math.imul\<close> work modulo \<open>2^32\<close>; the additions in between stay below
  \<open>2^53\<close> and are reduced modulo \<open>2^32\<close> by the next bit operation, so the whole
  computation is arithmetic on \<open>32 word\<close>. Strings are modelled as \<open>string\<close>, that is
  for code units below 256, where \<^verbatim>\<open>charCodeAt\<close> is \<open>of_char\<close>.
\<close>

type_synonym u32 = "32 word"

type_synonym 's RNG = "'s \<Rightarrow> u32 \<times> 's"

definition xfnv1a_init :: "string \<Rightarrow> u32" where
  "xfnv1a_init str = foldl (\<lambda>h c. (h XOR of_char c) * 16777619) 2166136261 str"

definition xfnv1a_next :: "u32 RNG" where
  "xfnv1a_next h0 =
     (let h1 = h0 + push_bit 13 h0;
          h2 = h1 XOR drop_bit 7 h1;
          h3 = h2 + push_bit 3 h2;
          h4 = h3 XOR drop_bit 17 h3;
          h5 = h4 + push_bit 5 h4
      in (h5, h5))"

text \<open>\<open>mulberry32 seed\<close> is the initial closure state \<^verbatim>\<open>a = seed >>> 0\<close>;
  \<open>mulberry32_next\<close> is one call of the returned closure.\<close>

definition mulberry32 :: "u32 \<Rightarrow> u32" where
  "mulberry32 seed = seed"

definition mulberry32_next :: "u32 RNG" where
  "mulberry32_next a0 =
     (let a = a0 + 0x6D2B79F5;
          t = (a XOR drop_bit 15 a) * (1 OR a);
          t' = t XOR (t + (t XOR drop_bit 7 t) * (61 OR t))
      in (t' XOR drop_bit 14 t', a))"

text \<open>\<^verbatim>\<open>Math.floor(h() * 2 ** 32) >>> 0\<close> is the numerator of the first hash draw.\<close>

definition rngFromSeed :: "string \<Rightarrow> u32" where
  "rngFromSeed seed = (let n = fst (xfnv1a_next (xfnv1a_init seed)) in mulberry32 n)"

section \<open>Combinations, constraints, sampler and allocator (src/lib/sestine.ts)\<close>

datatype error = ImpossibleConstraint | GenerationExhausted | UniquenessExhausted

text \<open>
  The three \<^verbatim>\<open>throw new Error(...)\<close> of the file, named as in the specification:
  \<open>ImpossibleConstraint\<close> is "Vincolo impossibile: troppi numeri obbligatori (>6).",
  \<open>GenerationExhausted\<close> is "Impossibile soddisfare i vincoli (loop).",
  \<open>UniquenessExhausted\<close> is "Impossibile generare sestine uniche: troppi duplicati (limite nonce).".
\<close>

record Meta =
  seed :: "string option"
  attemptNonce :: nat
  superstitionMode :: "bool option"

text \<open>\<open>createdAt\<close> is the millisecond timestamp whose ISO rendering the source stores.\<close>

record Sestina =
  nums :: "int list"
  key :: string
  createdAt :: int
  frozen :: bool
  meta :: "Meta option"

definition MIN_NUM :: int where
  "MIN_NUM = 1"

definition MAX_NUM :: int where
  "MAX_NUM = 90"

record Constraints =
  exclude :: "int list"
  mustInclude :: "int list"
  mustIncludeAnyOf :: "int list"

text \<open>A JavaScript \<^verbatim>\<open>Set\<close> is a duplicate-free collection iterated in insertion order:
  a list, with \<^verbatim>\<open>has\<close> as membership, \<^verbatim>\<open>size\<close> as length.\<close>

definition set_add :: "'a list \<Rightarrow> 'a \<Rightarrow> 'a list" where
  "set_add xs x = (if x \<in> set xs then xs else xs @ [x])"

definition set_delete :: "'a list \<Rightarrow> 'a \<Rightarrow> 'a list" where
  "set_delete xs x = filter (\<lambda>y. y \<noteq> x) xs"

definition new_Set :: "'a list \<Rightarrow> 'a list" where
  "new_Set xs = foldl set_add [] xs"

definition digitChar :: "nat \<Rightarrow> char" where
  "digitChar d = ''0123456789'' ! d"

function showNat :: "nat \<Rightarrow> string" where
  "showNat n = (if n < 10 then [digitChar n] else showNat (n div 10) @ [digitChar (n mod 10)])"
  by pat_completeness auto
termination
  by (relation "measure id") auto

declare showNat.simps [simp del]

definition showInt :: "int \<Rightarrow> string" where
  "showInt i = (if i < 0 then CHR ''-'' # showNat (nat (- i)) else showNat (nat i))"

fun join :: "string \<Rightarrow> string list \<Rightarrow> string" where
  "join sep [] = []"
| "join sep [x] = x"
| "join sep (x # y # ys) = x @ sep @ join sep (y # ys)"

definition normalizeNums :: "int list \<Rightarrow> int list" where
  "normalizeNums ns = sort ns"

definition sestinaKey :: "int list \<Rightarrow> string" where
  "sestinaKey ns = join ''-'' (map showInt (normalizeNums ns))"

text \<open>\<^verbatim>\<open>Math.floor(rng() * (max - min + 1)) + min\<close>, the draw being \<open>w / 2^32\<close>.\<close>

definition rngInt :: "'s RNG \<Rightarrow> 's \<Rightarrow> int \<Rightarrow> int \<Rightarrow> int \<times> 's" where
  "rngInt rng s mn mx =
     (let (w, s') = rng s
      in (\<lfloor>(of_int (uint w) / 4294967296 :: rat) * of_int (mx - mn + 1)\<rfloor> + mn, s'))"

definition isValidSestina :: "int list \<Rightarrow> Constraints \<Rightarrow> bool" where
  "isValidSestina ns c =
     (let st = new_Set ns in
      if list_ex (\<lambda>ex. ex \<in> set st) (exclude c) then False
      else if list_ex (\<lambda>mi. mi \<notin> set st) (mustInclude c) then False
      else if length (mustIncludeAnyOf c) > 0 then
        (if list_ex (\<lambda>x. x \<in> set st) (mustIncludeAnyOf c) then True else False)
      else True)"

text \<open>The \<^verbatim>\<open>while (picked.size < 6)\<close> loop with its guard counter. It returns the
  filled set or the guard's error, and the state the stream was left in.\<close>

function fillLoop ::
  "'s RNG \<Rightarrow> Constraints \<Rightarrow> int list \<Rightarrow> nat \<Rightarrow> 's \<Rightarrow> (error + int list) \<times> 's" where
  "fillLoop rng c picked guard s =
     (if length picked < 6 then
        (let guard' = guard + 1 in
         if guard' > 100000 then (Inl GenerationExhausted, s)
         else
           (let (x, s') = rngInt rng s MIN_NUM MAX_NUM in
            if x \<in> set picked then fillLoop rng c picked guard' s'
            else if x \<in> set (exclude c) then fillLoop rng c picked guard' s'
            else fillLoop rng c (set_add picked x) guard' s'))
      else (Inr picked, s))"
  by pat_completeness auto
termination
  by (relation "measure (\<lambda>(rng, c, picked, guard, s). 100001 - guard)") auto

declare fillLoop.simps [simp del]

text \<open>The sampler. Its retry is a recursive call in tail position with no counter of its
  own, so the function is partial: \<open>None\<close> is a run that never returns. (An engine that
  does not eliminate the tail call ends such a run when its call stack is full; that is
  the engine's limit, not a guard of the program.)\<close>

partial_function (option) generateRandomSestinaWithConstraints ::
  "'s RNG \<Rightarrow> Constraints \<Rightarrow> 's \<Rightarrow> ((error + int list) \<times> 's) option" where
  "generateRandomSestinaWithConstraints rng c s =
     (let picked = foldl set_add [] (mustInclude c) in
      if length picked > 6 then Some (Inl ImpossibleConstraint, s)
      else
        (case fillLoop rng c picked 0 s of
           (Inl e, s') \<Rightarrow> Some (Inl e, s')
         | (Inr picked', s') \<Rightarrow>
             (let ns = normalizeNums picked' in
              if \<not> isValidSestina ns c
              then generateRandomSestinaWithConstraints rng c s'
              else Some (Inr ns, s'))))"

declare generateRandomSestinaWithConstraints.simps [code]

text \<open>\<^verbatim>\<open>rngFactory(nonce)\<close> returns a fresh closure: its initial state. A factory may read
  an outside source (the unseeded regeneration reads \<^verbatim>\<open>crypto.getRandomValues\<close> on every
  call), so it threads a state \<open>'f\<close> of its own.\<close>

type_synonym ('s, 'f) rngFactory = "nat \<Rightarrow> 'f \<Rightarrow> 's \<times> 'f"

record Options =
  opt_seed :: "string option"
  opt_superstitionMode :: "bool option"

text \<open>The \<^verbatim>\<open>while (!ok)\<close> loop of one slot. \<open>existingKeys\<close> is the caller's set, mutated
  in place: it is returned on every path, the throwing ones included.\<close>

function slotLoop ::
  "'s RNG \<Rightarrow> ('s, 'f) rngFactory \<Rightarrow> Constraints \<Rightarrow> Options option \<Rightarrow> int \<Rightarrow> nat \<Rightarrow>
   nat \<Rightarrow> string list \<Rightarrow> 'f \<Rightarrow> ((error + Sestina) \<times> string list \<times> 'f) option" where
  "slotLoop rng rngFactory c options now i nonce existingKeys f =
     (let (r, f') = rngFactory nonce f in
      case generateRandomSestinaWithConstraints rng c r of
        None \<Rightarrow> None
      | Some (Inl e, _) \<Rightarrow> Some (Inl e, existingKeys, f')
      | Some (Inr ns, _) \<Rightarrow>
          (let k = sestinaKey ns in
           if k \<notin> set existingKeys then
             Some (Inr \<lparr>nums = ns, key = k, createdAt = now + int i, frozen = False,
                        meta = Some \<lparr>seed = (case options of None \<Rightarrow> None | Some opt \<Rightarrow> opt_seed opt),
                                     attemptNonce = nonce,
                                     superstitionMode =
                                       (case options of None \<Rightarrow> None
                                        | Some opt \<Rightarrow> opt_superstitionMode opt)\<rparr>\<rparr>,
                   set_add existingKeys k, f')
           else
             (let nonce' = nonce + 1 in
              if nonce' > 50000 then Some (Inl UniquenessExhausted, existingKeys, f')
              else slotLoop rng rngFactory c options now i nonce' existingKeys f')))"
  by pat_completeness auto
termination
  by (relation "measure (\<lambda>(rng, rngFactory, c, options, now, i, nonce, existingKeys, f). 50001 - nonce)")
    auto

declare slotLoop.simps [simp del]

text \<open>The \<^verbatim>\<open>for (let i = 0; i < count; i++)\<close> loop.\<close>

function forLoop ::
  "'s RNG \<Rightarrow> ('s, 'f) rngFactory \<Rightarrow> Constraints \<Rightarrow> Options option \<Rightarrow> int \<Rightarrow> nat \<Rightarrow>
   nat \<Rightarrow> Sestina list \<Rightarrow> string list \<Rightarrow> 'f \<Rightarrow>
   ((error + Sestina list) \<times> string list \<times> 'f) option" where
  "forLoop rng rngFactory c options now count i out existingKeys f =
     (if i < count then
        (case slotLoop rng rngFactory c options now i 0 existingKeys f of
           None \<Rightarrow> None
         | Some (Inl e, existingKeys', f') \<Rightarrow> Some (Inl e, existingKeys', f')
         | Some (Inr s, existingKeys', f') \<Rightarrow>
             forLoop rng rngFactory c options now count (i + 1) (out @ [s]) existingKeys' f')
      else Some (Inr out, existingKeys, f))"
  by pat_completeness auto
termination
  by (relation "measure (\<lambda>(rng, rngFactory, c, options, now, count, i, out, existingKeys, f). count - i)")
    auto

declare forLoop.simps [simp del]

text \<open>\<open>count\<close> is a natural number: both callers pass a positive integer. \<open>now\<close> is the
  value of \<^verbatim>\<open>new Date()\<close> read on entry.\<close>

definition generateUniqueSestine ::
  "nat \<Rightarrow> string list \<Rightarrow> 's RNG \<Rightarrow> ('s, 'f) rngFactory \<Rightarrow> Constraints \<Rightarrow> Options option \<Rightarrow>
   int \<Rightarrow> 'f \<Rightarrow> ((error + Sestina list) \<times> string list \<times> 'f) option" where
  "generateUniqueSestine count existingKeys rng rngFactory c options now f =
     forLoop rng rngFactory c options now count 0 [] existingKeys f"

section \<open>Application state and batch operations (src/lib/storage.ts, src/App.tsx)\<close>

datatype GroupEvent =
    Generate int nat "string option" Constraints
  | Validate int "int list" "int option" "int option"

record Group =
  id' :: string
  name :: string
  createdAt :: int
  sestine :: "Sestina list"
  events :: "GroupEvent list"

text \<open>Of \<^verbatim>\<open>Settings\<close> the fields the two batch operations read. The \<^verbatim>\<open>constraints\<close>
  value, which a \<^verbatim>\<open>useMemo\<close> derives from the other settings, is a parameter of the
  operations below.\<close>

record Settings =
  seedEnabled :: bool
  seedValue :: string
  superstitionEnabled :: bool

record AppState =
  version :: nat
  groups :: "Group list"
  settings :: Settings

text \<open>What the operations read from outside the state: \<open>entropy k\<close> is the \<open>k\<close>-th value
  \<^verbatim>\<open>crypto.getRandomValues\<close> delivers, \<open>clock k\<close> the time \<^verbatim>\<open>new Date()\<close> shows after
  \<open>k\<close> chunks, and \<open>abortRequested k\<close> the value of \<^verbatim>\<open>genAbortRef.current\<close> read after
  \<open>k\<close> chunks (the cancel button can only fire during the \<^verbatim>\<open>await sleep(0)\<close> that ends a
  chunk). A call is modelled on its own: no other update of the state falls between its
  suspension points, so that the \<^verbatim>\<open>prev\<close> of its \<^verbatim>\<open>setState\<close> is the state it started from.\<close>

record Env =
  entropy :: "nat \<Rightarrow> u32"
  clock :: "nat \<Rightarrow> int"
  abortRequested :: "nat \<Rightarrow> bool"

datatype Outcome = Skipped | Committed | Cancelled | Failed error

definition isWhiteSpace :: "char \<Rightarrow> bool" where
  "isWhiteSpace ch \<longleftrightarrow>
     ch \<in> set [CHR 0x09, CHR 0x0A, CHR 0x0B, CHR 0x0C, CHR 0x0D, CHR '' '', CHR 0xA0]"

definition trim :: "string \<Rightarrow> string" where
  "trim str = rev (dropWhile isWhiteSpace (rev (dropWhile isWhiteSpace str)))"

definition selectedGroup :: "AppState \<Rightarrow> string option \<Rightarrow> Group option" where
  "selectedGroup st selectedGroupId =
     (case selectedGroupId of None \<Rightarrow> None | Some gid \<Rightarrow> find (\<lambda>g. id' g = gid) (groups st))"

definition totalSestine :: "AppState \<Rightarrow> nat" where
  "totalSestine st = foldl (\<lambda>acc g. acc + length (sestine g)) 0 (groups st)"

definition globalKeys :: "AppState \<Rightarrow> string list" where
  "globalKeys st =
     foldl (\<lambda>keys g. foldl (\<lambda>keys x. set_add keys (key x)) keys (sestine g)) [] (groups st)"

definition chunkSize :: "nat \<Rightarrow> nat" where
  "chunkSize n = (if n \<ge> 5000 then 250 else if n \<ge> 1000 then 200 else if n \<ge> 200 then 100 else 50)"

text \<open>The closure \<^verbatim>\<open>rngFactory\<close> of \<^verbatim>\<open>generateForSelectedGroup\<close>, with the variables it
  captures as parameters.\<close>

definition batchRngFactory ::
  "bool \<Rightarrow> string \<Rightarrow> string \<Rightarrow> nat \<Rightarrow> u32 \<Rightarrow> nat \<Rightarrow> (u32, unit) rngFactory" where
  "batchRngFactory seedOn sd gid totalCount baseSeedNum nonceBase nonce f =
     (let nn = nonceBase + nonce in
      (if seedOn
       then rngFromSeed (sd @ ''::'' @ gid @ ''::'' @ showNat totalCount @ ''::'' @ showNat nn)
       else mulberry32 (baseSeedNum + of_nat nn * 1013904223), f))"

definition batchOptions :: "AppState \<Rightarrow> string \<Rightarrow> Options option" where
  "batchOptions st sd =
     Some \<lparr>opt_seed = (if seedEnabled (settings st) then Some sd else None),
           opt_superstitionMode = Some (superstitionEnabled (settings st))\<rparr>"

text \<open>The \<^verbatim>\<open>while (produced < n)\<close> loop. \<open>keys\<close> is the local copy of the ledger that all
  chunks share; \<open>k\<close> counts the chunks done. The result is the error that was thrown, or
  the combinations generated and the number of chunks done when the loop was left.\<close>

function chunkLoop ::
  "Env \<Rightarrow> AppState \<Rightarrow> Group \<Rightarrow> Constraints \<Rightarrow> string \<Rightarrow> u32 \<Rightarrow> nat \<Rightarrow>
   nat \<Rightarrow> nat \<Rightarrow> Sestina list \<Rightarrow> string list \<Rightarrow> nat \<Rightarrow> (error + Sestina list \<times> nat) option" where
  "chunkLoop env st g c sd baseSeedNum n produced nonceBase allGenerated keys k =
     (if produced < n then
        (if abortRequested env k then Some (Inr (allGenerated, k))
         else
           (let take = min (chunkSize n) (n - produced);
                rngFactory = batchRngFactory (seedEnabled (settings st)) sd (id' g) (totalSestine st)
                               baseSeedNum nonceBase
            in case generateUniqueSestine take keys mulberry32_next rngFactory c (batchOptions st sd)
                      (clock env k) () of
                 None \<Rightarrow> None
               | Some (Inl e, keys', _) \<Rightarrow> Some (Inl e)
               | Some (Inr chunk, keys', _) \<Rightarrow>
                   chunkLoop env st g c sd baseSeedNum n (produced + length chunk)
                     (nonceBase + take * 3) (allGenerated @ chunk) keys' (k + 1)))
      else Some (Inr (allGenerated, k)))"
  by pat_completeness auto

text \<open>The string the seed field holds when seeding is on, trimmed; empty otherwise.\<close>

definition seedOf :: "AppState \<Rightarrow> string" where
  "seedOf st = (if seedEnabled (settings st) then trim (seedValue (settings st)) else [])"

text \<open>\<^verbatim>\<open>Math.max(1, Math.floor(countToGenerate || 1))\<close>, where \<open>countToGenerate\<close> is the
  number in the input field, \<open>None\<close> when it is not a number.\<close>

definition requestedCount :: "rat option \<Rightarrow> nat" where
  "requestedCount countToGenerate =
     nat (max 1 \<lfloor>case countToGenerate of None \<Rightarrow> 1 | Some x \<Rightarrow> if x = 0 then 1 else x\<rfloor>)"

text \<open>The result is how the call ended and the application state it left; \<open>None\<close> is a
  call that never returns.\<close>

definition generateForSelectedGroup ::
  "Env \<Rightarrow> AppState \<Rightarrow> string option \<Rightarrow> rat option \<Rightarrow> Constraints \<Rightarrow> (Outcome \<times> AppState) option" where
  "generateForSelectedGroup env st selectedGroupId countToGenerate c =
     (case selectedGroup st selectedGroupId of
        None \<Rightarrow> Some (Skipped, st)
      | Some g \<Rightarrow>
          (let n = requestedCount countToGenerate;
               keys = new_Set (globalKeys st);
               sd = seedOf st;
               baseRng = (if seedEnabled (settings st)
                          then rngFromSeed (sd @ ''::'' @ id' g @ ''::base'')
                          else mulberry32 (entropy env 0));
               baseSeedNum = fst (mulberry32_next baseRng)
           in case chunkLoop env st g c sd baseSeedNum n 0 0 [] keys 0 of
                None \<Rightarrow> None
              | Some (Inl e) \<Rightarrow> Some (Failed e, st)
              | Some (Inr (allGenerated, k)) \<Rightarrow>
                  if \<not> abortRequested env k then
                    Some (Committed,
                      st\<lparr>groups :=
                           map (\<lambda>g'. if id' g' \<noteq> id' g then g'
                                     else g'\<lparr>sestine := allGenerated @ sestine g',
                                             events :=
                                               Generate (clock env k) n
                                                 (if seedEnabled (settings st) then Some sd else None) c
                                               # events g'\<rparr>)
                             (groups st)\<rparr>)
                  else Some (Cancelled, st)))"

text \<open>The key set \<^verbatim>\<open>regenerateNonFrozenInGroup\<close> hands to the allocator: a copy of the
  global keys, from which the key of every combination of the group that is not frozen
  has been deleted.\<close>

definition releasedKeys :: "AppState \<Rightarrow> Group \<Rightarrow> string list" where
  "releasedKeys st g =
     foldl (\<lambda>keys x. if \<not> frozen x then set_delete keys (key x) else keys)
       (new_Set (globalKeys st)) (sestine g)"

text \<open>Its \<^verbatim>\<open>rngFactory\<close>; the unseeded one reads fresh entropy on every call, and the
  factory state counts the reads.\<close>

definition regenRngFactory :: "Env \<Rightarrow> bool \<Rightarrow> string \<Rightarrow> string \<Rightarrow> (u32, nat) rngFactory" where
  "regenRngFactory env seedOn sd gid nonce f =
     (if seedOn then (rngFromSeed (sd @ ''::'' @ gid @ ''::regen::'' @ showNat nonce), f)
      else (mulberry32 (entropy env f + of_nat nonce), f + 1))"

definition regenerateNonFrozenInGroup ::
  "Env \<Rightarrow> AppState \<Rightarrow> string \<Rightarrow> Constraints \<Rightarrow> (Outcome \<times> AppState) option" where
  "regenerateNonFrozenInGroup env st groupId c =
     (case find (\<lambda>x. id' x = groupId) (groups st) of
        None \<Rightarrow> Some (Skipped, st)
      | Some g \<Rightarrow>
          (let frozen' = filter frozen (sestine g);
               toRegenCount = int (length (sestine g)) - int (length frozen')
           in if toRegenCount \<le> 0 then Some (Skipped, st)
              else
                (let keys = releasedKeys st g;
                     sd = seedOf st;
                     rngFactory = regenRngFactory env (seedEnabled (settings st)) sd (id' g)
                 in case generateUniqueSestine (nat toRegenCount) keys mulberry32_next rngFactory c
                           (batchOptions st sd) (clock env 0) 0 of
                      None \<Rightarrow> None
                    | Some (Inl e, _, _) \<Rightarrow> Some (Failed e, st)
                    | Some (Inr regenerated, _, _) \<Rightarrow>
                        Some (Committed,
                          st\<lparr>groups :=
                               map (\<lambda>x. if id' x \<noteq> id' g then x
                                        else x\<lparr>sestine := frozen' @ regenerated,
                                               events :=
                                                 Generate (clock env 1) (nat toRegenCount)
                                                   (if seedEnabled (settings st) then Some sd else None) c
                                                 # events x\<rparr>)
                                 (groups st)\<rparr>))))"

text \<open>The combinations a state holds, group by group: what two runs are compared on.\<close>

definition combinationsOf :: "AppState \<Rightarrow> int list list list" where
  "combinationsOf st = map (\<lambda>g. map nums (sestine g)) (groups st)"

subsection \<open>Key sets as objects\<close>

text \<open>
  A \<^verbatim>\<open>Set\<close> is an object, and what a variable holds or a call passes is a reference to
  it. To tell a write to the set of the caller from a write to a copy of it, the allocator
  and its two callers are given once more over a store of set objects: \<open>cells h x\<close> is the
  content of the set at reference \<open>x\<close>, and \<open>nextRef h\<close> the reference the next
  \<^verbatim>\<open>new Set\<close> will return, every object in use lying below it.
\<close>

type_synonym ref = nat

record Heap =
  cells :: "ref \<Rightarrow> string list"
  nextRef :: ref

text \<open>\<^verbatim>\<open>new Set(x)\<close> for a set object \<open>x\<close>: a new object with the elements of \<open>x\<close>.\<close>

definition Set_copy :: "Heap \<Rightarrow> ref \<Rightarrow> ref \<times> Heap" where
  "Set_copy h x =
     (nextRef h, \<lparr>cells = (cells h)(nextRef h := new_Set (cells h x)), nextRef = Suc (nextRef h)\<rparr>)"

definition Set_write :: "Heap \<Rightarrow> ref \<Rightarrow> string list \<Rightarrow> Heap" where
  "Set_write h x xs = h\<lparr>cells := (cells h)(x := xs)\<rparr>"

text \<open>The allocator on a reference: \<^verbatim>\<open>existingKeys.has\<close> and \<^verbatim>\<open>existingKeys.add\<close> read and
  write the object passed, which is left with the set the state-passing model returns,
  on a throw as on a return.\<close>

definition generateUniqueSestine_ref ::
  "nat \<Rightarrow> ref \<Rightarrow> Heap \<Rightarrow> 's RNG \<Rightarrow> ('s, 'f) rngFactory \<Rightarrow> Constraints \<Rightarrow> Options option \<Rightarrow>
   int \<Rightarrow> 'f \<Rightarrow> ((error + Sestina list) \<times> Heap \<times> 'f) option" where
  "generateUniqueSestine_ref count existingKeys h rng rngFactory c options now f =
     (case generateUniqueSestine count (cells h existingKeys) rng rngFactory c options now f of
        None \<Rightarrow> None
      | Some (r, keys', f') \<Rightarrow> Some (r, Set_write h existingKeys keys', f'))"

function chunkLoop_ref ::
  "Env \<Rightarrow> AppState \<Rightarrow> Group \<Rightarrow> Constraints \<Rightarrow> string \<Rightarrow> u32 \<Rightarrow> nat \<Rightarrow>
   nat \<Rightarrow> nat \<Rightarrow> Sestina list \<Rightarrow> ref \<Rightarrow> Heap \<Rightarrow> nat \<Rightarrow>
   ((error + Sestina list \<times> nat) \<times> Heap) option" where
  "chunkLoop_ref env st g c sd baseSeedNum n produced nonceBase allGenerated keys h k =
     (if produced < n then
        (if abortRequested env k then Some (Inr (allGenerated, k), h)
         else
           (let take = min (chunkSize n) (n - produced);
                rngFactory = batchRngFactory (seedEnabled (settings st)) sd (id' g) (totalSestine st)
                               baseSeedNum nonceBase
            in case generateUniqueSestine_ref take keys h mulberry32_next rngFactory c
                      (batchOptions st sd) (clock env k) () of
                 None \<Rightarrow> None
               | Some (Inl e, h', _) \<Rightarrow> Some (Inl e, h')
               | Some (Inr chunk, h', _) \<Rightarrow>
                   chunkLoop_ref env st g c sd baseSeedNum n (produced + length chunk)
                     (nonceBase + take * 3) (allGenerated @ chunk) keys h' (k + 1)))
      else Some (Inr (allGenerated, k), h))"
  by pat_completeness auto

text \<open>\<open>globalKeysRef\<close> is the reference of the set the \<^verbatim>\<open>useMemo\<close> of the component holds; it
  is computed anew, as another object, only when the groups of the state have changed.\<close>

definition generateForSelectedGroup_ref ::
  "Env \<Rightarrow> AppState \<Rightarrow> ref \<Rightarrow> Heap \<Rightarrow> string option \<Rightarrow> rat option \<Rightarrow> Constraints \<Rightarrow>
   (Outcome \<times> AppState \<times> Heap) option" where
  "generateForSelectedGroup_ref env st globalKeysRef h selectedGroupId countToGenerate c =
     (case selectedGroup st selectedGroupId of
        None \<Rightarrow> Some (Skipped, st, h)
      | Some g \<Rightarrow>
          (let n = requestedCount countToGenerate;
               (keys, h1) = Set_copy h globalKeysRef;
               sd = seedOf st;
               baseRng = (if seedEnabled (settings st)
                          then rngFromSeed (sd @ ''::'' @ id' g @ ''::base'')
                          else mulberry32 (entropy env 0));
               baseSeedNum = fst (mulberry32_next baseRng)
           in case chunkLoop_ref env st g c sd baseSeedNum n 0 0 [] keys h1 0 of
                None \<Rightarrow> None
              | Some (Inl e, h2) \<Rightarrow> Some (Failed e, st, h2)
              | Some (Inr (allGenerated, k), h2) \<Rightarrow>
                  if \<not> abortRequested env k then
                    Some (Committed,
                      st\<lparr>groups :=
                           map (\<lambda>g'. if id' g' \<noteq> id' g then g'
                                     else g'\<lparr>sestine := allGenerated @ sestine g',
                                             events :=
                                               Generate (clock env k) n
                                                 (if seedEnabled (settings st) then Some sd else None) c
                                               # events g'\<rparr>)
                             (groups st)\<rparr>, h2)
                  else Some (Cancelled, st, h2)))"

definition regenerateNonFrozenInGroup_ref ::
  "Env \<Rightarrow> AppState \<Rightarrow> ref \<Rightarrow> Heap \<Rightarrow> string \<Rightarrow> Constraints \<Rightarrow> (Outcome \<times> AppState \<times> Heap) option" where
  "regenerateNonFrozenInGroup_ref env st globalKeysRef h groupId c =
     (case find (\<lambda>x. id' x = groupId) (groups st) of
        None \<Rightarrow> Some (Skipped, st, h)
      | Some g \<Rightarrow>
          (let frozen' = filter frozen (sestine g);
               toRegenCount = int (length (sestine g)) - int (length frozen')
           in if toRegenCount \<le> 0 then Some (Skipped, st, h)
              else
                (let (keys, h1) = Set_copy h globalKeysRef;
                     h2 = foldl (\<lambda>h' x. if \<not> frozen x
                                         then Set_write h' keys (set_delete (cells h' keys) (key x))
                                         else h') h1 (sestine g);
                     sd = seedOf st;
                     rngFactory = regenRngFactory env (seedEnabled (settings st)) sd (id' g)
                 in case generateUniqueSestine_ref (nat toRegenCount) keys h2 mulberry32_next rngFactory c
                           (batchOptions st sd) (clock env 0) 0 of
                      None \<Rightarrow> None
                    | Some (Inl e, h3, _) \<Rightarrow> Some (Failed e, st, h3)
                    | Some (Inr regenerated, h3, _) \<Rightarrow>
                        Some (Committed,
                          st\<lparr>groups :=
                               map (\<lambda>x. if id' x \<noteq> id' g then x
                                        else x\<lparr>sestine := frozen' @ regenerated,
                                               events :=
                                                 Generate (clock env 1) (nat toRegenCount)
                                                   (if seedEnabled (settings st) then Some sd else None) c
                                                 # events x\<rparr>)
                                 (groups st)\<rparr>, h3))))"

subsection \<open>Example inputs\<close>

text \<open>Constraints, states and an environment for the concrete runs further down: six
  mandatory numbers leave a single combination, five leave one number to draw; the groups
  are empty or hold one frozen and one unfrozen combination; the seed field holds
  \<^verbatim>\<open>" S "\<close>.\<close>

definition sixFixed :: Constraints where
  "sixFixed = \<lparr>exclude = [], mustInclude = [1, 2, 3, 4, 5, 6], mustIncludeAnyOf = []\<rparr>"

definition exampleState :: AppState where
  "exampleState =
     \<lparr>version = 2,
      groups = [\<lparr>id' = ''g'', name = ''Gruppo 1'', createdAt = 0, sestine = [], events = []\<rparr>],
      settings = \<lparr>seedEnabled = False, seedValue = ''PASQUA2026'', superstitionEnabled = False\<rparr>\<rparr>"

definition exampleFrozen :: Sestina where
  "exampleFrozen = \<lparr>nums = [3, 9, 27, 45, 63, 81], key = ''3-9-27-45-63-81'', createdAt = 10,
     frozen = True, meta = None\<rparr>"




definition fiveFixed :: Constraints where
  "fiveFixed = \<lparr>exclude = [], mustInclude = [1, 2, 3, 4, 5], mustIncludeAnyOf = []\<rparr>"

definition seededState :: AppState where
  "seededState =
     \<lparr>version = 2,
      groups = [\<lparr>id' = ''g'', name = ''Gruppo 1'', createdAt = 0, sestine = [], events = []\<rparr>],
      settings = \<lparr>seedEnabled = True, seedValue = '' S '', superstitionEnabled = False\<rparr>\<rparr>"

definition seededStateOneMore :: AppState where
  "seededStateOneMore =
     \<lparr>version = 2,
      groups = [\<lparr>id' = ''g'', name = ''Gruppo 1'', createdAt = 0, sestine = [], events = []\<rparr>,
                \<lparr>id' = ''h'', name = ''Gruppo 2'', createdAt = 1, sestine = [exampleFrozen], events = []\<rparr>],
      settings = \<lparr>seedEnabled = True, seedValue = '' S '', superstitionEnabled = False\<rparr>\<rparr>"

definition exampleEnv :: Env where
  "exampleEnv = \<lparr>entropy = (\<lambda>k. 7), clock = (\<lambda>k. 1000), abortRequested = (\<lambda>k. False)\<rparr>"

text \<open>A store for \<open>exampleState\<close>: its global key set, which is empty, is the object at
  reference 0.\<close>

definition exampleHeap :: Heap where
  "exampleHeap = \<lparr>cells = (\<lambda>x. []), nextRef = 1\<rparr>"

section \<open>Probability engine (src/App.tsx)\<close>

text \<open>
  A JavaScript number is an IEEE 754 binary64 value, and \<^verbatim>\<open>*\<close> and \<^verbatim>\<open>/\<close> return the exact
  product or quotient rounded to the nearest such value, ties to the even significand.
  \<open>fl64 x\<close> is that rounding of the rational \<open>x\<close>: \<open>binade x\<close> is the exponent \<open>e\<close> with
  \<open>2^e \<le> |x| < 2^(e+1)\<close>, the spacing of the doubles there is \<open>2^(e-52)\<close>, and below
  \<open>2^-1022\<close> it stays \<open>2^-1074\<close>. A magnitude of \<open>2^1024\<close> or more rounds to an infinity,
  which the model does not have; no product or quotient of \<^verbatim>\<open>nCk\<close> reaches it while
  \<open>n \<le> 1020\<close>.
\<close>

fun ilog2 :: "nat \<Rightarrow> nat" where
  "ilog2 n = (if n < 2 then 0 else Suc (ilog2 (n div 2)))"

declare ilog2.simps [simp del]

definition binade :: "rat \<Rightarrow> int" where
  "binade x =
     (let a = \<bar>x\<bar> in
        if 1 \<le> a then int (ilog2 (nat \<lfloor>a\<rfloor>))
        else - int (ilog2 (nat (\<lceil>1 / a\<rceil> - 1))) - 1)"

definition roundTiesToEven :: "rat \<Rightarrow> int" where
  "roundTiesToEven x =
     (let f = \<lfloor>x\<rfloor>; d = x - of_int f in
        if d < 1 / 2 then f else if 1 / 2 < d then f + 1 else if even f then f else f + 1)"

definition fl64 :: "rat \<Rightarrow> rat" where
  "fl64 x =
     (if x = 0 then 0
      else let e = max (binade x) (- 1022);
               ulp = (if 52 \<le> e then 2 ^ nat (e - 52) else 1 / 2 ^ nat (52 - e))
           in of_int (roundTiesToEven (x / ulp)) * ulp)"

text \<open>
  \<^verbatim>\<open>nCk\<close> with the rounding of its product and of its quotient. \<open>n\<close> and \<open>k\<close> are
  integers, as at every call, of magnitude at most \<open>2^53\<close>: doubles hold these exactly,
  and with them the counter \<open>i\<close> and the factor \<^verbatim>\<open>n - (k - i)\<close>. The probabilities that
  follow are modelled in exact rational arithmetic over the values of \<^verbatim>\<open>nCk\<close>; the source
  rounds the quotient of \<^verbatim>\<open>singleTicketExactMatchProb\<close>, and the sums, powers and
  differences after it.
\<close>

function nCk_loop :: "int \<Rightarrow> int \<Rightarrow> int \<Rightarrow> rat \<Rightarrow> rat" where
  "nCk_loop n k i res =
     (if i \<le> k
      then nCk_loop n k (i + 1) (fl64 (fl64 (res * of_int (n - (k - i))) / of_int i))
      else res)"
  by pat_completeness auto
termination
  by (relation "measure (\<lambda>(n, k, i, res). nat (k + 1 - i))") auto

definition nCk :: "int \<Rightarrow> int \<Rightarrow> rat" where
  "nCk n k =
     (if k < 0 \<or> k > n then 0
      else let k' = min k (n - k) in nCk_loop n k' 1 1)"

definition singleTicketExactMatchProb :: "int \<Rightarrow> rat" where
  "singleTicketExactMatchProb r =
     (let total = nCk 90 6 in (nCk 6 r * nCk 84 (6 - r)) / total)"

record DistEntry =
  m :: int
  p :: rat






section \<open>Properties of the probability engine\<close>

lemma ilog2_bounds: "0 < n \<Longrightarrow> 2 ^ ilog2 n \<le> n \<and> n < 2 ^ Suc (ilog2 n)"
proof (induction n rule: ilog2.induct)
  case (1 n)
  show ?case
  proof (cases "n < 2")
    case True
    with 1(2) have "n = 1" by simp
    then show ?thesis by (simp add: ilog2.simps)
  next
    case False
    then have "0 < n div 2" by simp
    from 1(1)[OF False this]
    have ih: "2 ^ ilog2 (n div 2) \<le> n div 2" "n div 2 < 2 ^ Suc (ilog2 (n div 2))" by simp_all
    have e: "ilog2 n = Suc (ilog2 (n div 2))" using False by (subst ilog2.simps) simp
    have "2 * 2 ^ ilog2 (n div 2) \<le> n" using ih(1) by linarith
    moreover have "n < 2 * 2 ^ Suc (ilog2 (n div 2))" using ih(2) by linarith
    ultimately show ?thesis unfolding e by simp
  qed
qed

lemma roundTiesToEven_of_int: "roundTiesToEven (of_int z) = z"
  by (simp add: roundTiesToEven_def)

lemma fl64_of_int:
  assumes "\<bar>z\<bar> \<le> 2 ^ 53"
  shows "fl64 (of_int z) = of_int z"
proof (cases "z = 0")
  case True
  then show ?thesis by (simp add: fl64_def)
next
  case False
  define e where "e = ilog2 (nat \<bar>z\<bar>)"
  have pos: "0 < nat \<bar>z\<bar>" using False by simp
  note b = ilog2_bounds[OF pos, folded e_def]
  have le: "nat \<bar>z\<bar> \<le> 2 ^ 53" using assms by (simp add: nat_le_iff)
  have e53: "e \<le> 53"
  proof (rule ccontr)
    assume "\<not> e \<le> 53"
    then have "54 \<le> e" by simp
    then have "(2::nat) ^ 54 \<le> 2 ^ e" by (rule power_increasing) simp
    also have "\<dots> \<le> nat \<bar>z\<bar>" using b by (rule conjunct1)
    also note le
    finally show False by simp
  qed
  have bin: "binade (of_int z) = int e"
  proof -
    have "(1::rat) \<le> \<bar>of_int z\<bar>" using False by (metis of_int_abs of_int_1_le_iff zero_less_abs_iff int_one_le_iff_zero_less)
    moreover have "\<lfloor>\<bar>of_int z :: rat\<bar>\<rfloor> = \<bar>z\<bar>" by (metis of_int_abs floor_of_int)
    ultimately show ?thesis by (simp add: binade_def e_def Let_def)
  qed
  have mx: "max (int e) (- 1022) = int e" by simp
  consider "e < 52" | "e = 52" | "e = 53" using e53 by linarith
  then show ?thesis
  proof cases
    case 1
    have "of_int z / (1 / 2 ^ nat (52 - int e)) = (of_int (z * 2 ^ nat (52 - int e)) :: rat)"
      by simp
    then have "roundTiesToEven (of_int z / (1 / 2 ^ nat (52 - int e))) = z * 2 ^ nat (52 - int e)"
      by (simp only: roundTiesToEven_of_int)
    then show ?thesis using 1 False
      by (simp add: fl64_def bin mx Let_def)
  next
    case 2
    then show ?thesis using False
      by (simp add: fl64_def bin Let_def roundTiesToEven_of_int)
  next
    case 3
    have "2 ^ 53 \<le> nat \<bar>z\<bar>" using b 3 by simp
    with le have "nat \<bar>z\<bar> = 2 ^ 53" by simp
    then have "\<bar>z\<bar> = 2 ^ 53" by (simp add: nat_eq_iff)
    then have z: "z = 2 * 4503599627370496 \<or> z = 2 * (- 4503599627370496)" by (simp add: abs_if split: if_splits)
    have r: "roundTiesToEven (of_int (2 * w) / 2) = w" for w
      using roundTiesToEven_of_int[of w] by simp
    show ?thesis using z 3 r[of 4503599627370496] r[of "- 4503599627370496"]
      by (auto simp add: fl64_def bin Let_def)
  qed
qed

lemma fl64_of_nat: "n \<le> 2 ^ 53 \<Longrightarrow> fl64 (of_nat n) = of_nat n"
  using fl64_of_int[of "int n"] by (simp add: nat_le_iff flip: of_nat_power)

lemma fl64_numeral: "numeral w \<le> (9007199254740992::int) \<Longrightarrow> fl64 (numeral w) = numeral w"
  using fl64_of_int[of "numeral w"] by simp

lemma fl64_one: "fl64 1 = 1"
  using fl64_of_int[of 1] by simp

lemma nCk_loop_binomial:
  "1 \<le> i \<Longrightarrow> i \<le> k + 1 \<Longrightarrow> k \<le> n \<Longrightarrow> nat k * (nat n choose nat k) \<le> 2 ^ 53 \<Longrightarrow>
   res = of_nat (nat (n - k + i - 1) choose nat (i - 1)) \<Longrightarrow>
   nCk_loop n k i res = of_nat (nat n choose nat k)"
proof (induction n k i res rule: nCk_loop.induct)
  case (1 n k i res)
  show ?case
  proof (cases "i \<le> k")
    case True
    define a where "a = nat (n - k + i - 1)"
    define j where "j = nat (i - 1)"
    define d where "d = nat (n - k)"
    have a: "nat (n - k + (i + 1) - 1) = Suc a" and j: "nat (i + 1 - 1) = Suc j"
      using 1(2,3,4) True by (auto simp: a_def j_def)
    have i: "(of_int i :: rat) = of_nat (Suc j)"
      using 1(2) by (simp add: j_def)
    have nk: "(of_int (n - (k - i)) :: rat) = of_nat (Suc a)"
    proof -
      have "n - (k - i) = int (Suc a)" using 1(2,3,4) True by (simp add: a_def)
      then show ?thesis by (metis of_int_of_nat_eq)
    qed
    have res: "res = of_nat (a choose j)"
      using 1(6) by (simp add: a_def j_def)
    have st: "Suc j * (Suc a choose Suc j) = Suc a * (a choose j)"
      by (rule Suc_times_binomial)
    have ad: "Suc a = d + Suc j" "nat n = d + nat k" "Suc j \<le> nat k"
      using 1(2,3,4) True by (auto simp: a_def j_def d_def)
    have "Suc a choose Suc j = (d + Suc j) choose d"
      unfolding ad(1) using binomial_symmetric[of "Suc j" "d + Suc j"] by simp
    also have "\<dots> \<le> (d + nat k) choose d"
      by (rule binomial_right_mono) (use ad(3) in simp)
    also have "\<dots> = nat n choose nat k"
      unfolding ad(2) using binomial_symmetric[of "nat k" "d + nat k"] by simp
    finally have c: "Suc a choose Suc j \<le> nat n choose nat k" .
    have "Suc j * (Suc a choose Suc j) \<le> nat k * (nat n choose nat k)"
      by (rule mult_le_mono[OF ad(3) c])
    then have prod: "Suc j * (Suc a choose Suc j) \<le> 2 ^ 53"
      using 1(5) by (rule order_trans)
    have "1 * (Suc a choose Suc j) \<le> Suc j * (Suc a choose Suc j)"
      by (rule mult_le_mono1) simp
    with prod have quot: "Suc a choose Suc j \<le> 2 ^ 53" by simp
    have p: "res * of_int (n - (k - i)) = (of_nat (Suc j * (Suc a choose Suc j)) :: rat)"
      unfolding res nk st by (simp only: of_nat_mult mult.commute)
    have q: "(of_nat (Suc j * (Suc a choose Suc j)) :: rat) / of_int i = of_nat (Suc a choose Suc j)"
      unfolding i by (simp only: of_nat_mult) (simp del: of_nat_Suc binomial_Suc_Suc)
    have step: "fl64 (fl64 (res * of_int (n - (k - i))) / of_int i) = of_nat (Suc a choose Suc j)"
      unfolding p fl64_of_nat[OF prod] q by (rule fl64_of_nat[OF quot])
    have "nCk_loop n k (i + 1) (fl64 (fl64 (res * of_int (n - (k - i))) / of_int i)) =
            of_nat (nat n choose nat k)"
    proof (rule 1(1)[OF True])
      show "fl64 (fl64 (res * of_int (n - (k - i))) / of_int i) =
              of_nat (nat (n - k + (i + 1) - 1) choose nat (i + 1 - 1))"
        unfolding a j by (rule step)
    qed (use 1(2,3,4,5) True in auto)
    then show ?thesis using True by simp
  next
    case False
    then have "i = k + 1" using 1(3) by simp
    then show ?thesis using 1(6) False by simp
  qed
qed

lemma nCk_binomial:
  assumes k: "0 \<le> k" "k \<le> n"
    and bound: "min k (n - k) * int (nat n choose nat k) \<le> 2 ^ 53"
  shows "nCk n k = of_nat (nat n choose nat k)"
proof -
  let ?k = "min k (n - k)"
  have sym: "nat n choose nat ?k = nat n choose nat k"
  proof (cases "k \<le> n - k")
    case True then show ?thesis by (simp add: min_def)
  next
    case False
    then have "nat ?k = nat n - nat k" using k by (simp add: min_def nat_diff_distrib)
    moreover have "nat n choose nat k = nat n choose (nat n - nat k)"
      by (rule binomial_symmetric) (use k in simp)
    ultimately show ?thesis by simp
  qed
  have k0: "0 \<le> ?k" using k by simp
  have "int (nat ?k * (nat n choose nat ?k)) = int (nat ?k) * int (nat n choose nat k)"
    unfolding sym by (rule of_nat_mult)
  also have "\<dots> = ?k * int (nat n choose nat k)"
    using k0 by (simp only: nat_0_le)
  also note bound
  finally have "int (nat ?k * (nat n choose nat ?k)) \<le> int (2 ^ 53)" by simp
  then have b: "nat ?k * (nat n choose nat ?k) \<le> 2 ^ 53"
    by (simp only: of_nat_le_iff)
  have "nCk_loop n ?k 1 1 = of_nat (nat n choose nat ?k)"
    by (rule nCk_loop_binomial[OF _ _ _ b]) (use k in auto)
  then show ?thesis using k sym by (simp add: nCk_def Let_def)
qed

lemma nCk_bound_small:
  assumes k: "0 \<le> k" "k \<le> n" and n: "n \<le> 90" and s: "min k (n - k) \<le> 6"
  shows "min k (n - k) * int (nat n choose nat k) \<le> 2 ^ 53"
proof -
  let ?k = "nat (min k (n - k))"
  have sym: "nat n choose nat k = nat n choose ?k"
  proof (cases "k \<le> n - k")
    case True then show ?thesis by (simp add: min_def)
  next
    case False
    then have "?k = nat n - nat k" using k by (simp add: min_def nat_diff_distrib)
    moreover have "nat n choose nat k = nat n choose (nat n - nat k)"
      by (rule binomial_symmetric) (use k in simp)
    ultimately show ?thesis by simp
  qed
  have kn: "?k \<le> nat n" using k by simp
  have "nat n choose ?k \<le> nat n ^ ?k" by (rule binomial_le_pow[OF kn])
  also have "\<dots> \<le> 90 ^ ?k" by (rule power_mono) (use n in simp_all)
  also have "\<dots> \<le> 90 ^ 6" by (rule power_increasing) (use s in simp_all)
  finally have c: "nat n choose ?k \<le> 90 ^ 6" .
  have "?k * (nat n choose ?k) \<le> 6 * 90 ^ 6"
    by (rule mult_le_mono[OF _ c]) (use s in simp)
  also have "\<dots> \<le> 2 ^ 53" by simp
  finally have "int (?k * (nat n choose ?k)) \<le> int (2 ^ 53)" by (simp only: of_nat_le_iff)
  also have "int (2 ^ 53) = 2 ^ 53" by simp
  finally have "int (?k * (nat n choose ?k)) \<le> 2 ^ 53" .
  moreover have k0: "0 \<le> min k (n - k)" using k by simp
  have "int (?k * (nat n choose ?k)) = int ?k * int (nat n choose ?k)"
    by (rule of_nat_mult)
  then have "int (?k * (nat n choose ?k)) = min k (n - k) * int (nat n choose ?k)"
    using k0 by (simp only: nat_0_le)
  ultimately show ?thesis unfolding sym by (simp only:)
qed

lemma nCk_vals: "nCk 90 6 = 622614630"
  "nCk 6 0 = 1" "nCk 6 1 = 6" "nCk 6 2 = 15" "nCk 6 3 = 20" "nCk 6 4 = 15" "nCk 6 5 = 6" "nCk 6 6 = 1"
  "nCk 84 0 = 1" "nCk 84 1 = 84" "nCk 84 2 = 3486" "nCk 84 3 = 95284" "nCk 84 4 = 1929501" "nCk 84 5 = 30872016"
  "nCk 84 6 = 406481544"
  by (simp_all add: nCk_def fl64_numeral fl64_one)

lemma prob_vals:
  "singleTicketExactMatchProb 0 = 67746924 / 103769105"
  "singleTicketExactMatchProb 1 = 30872016 / 103769105"
  "singleTicketExactMatchProb 2 = 1929501 / 41507642"
  "singleTicketExactMatchProb 3 = 190568 / 62261463"
  "singleTicketExactMatchProb 4 = 1743 / 20753821"
  "singleTicketExactMatchProb 5 = 84 / 103769105"
  "singleTicketExactMatchProb 6 = 1 / 622614630"
  by (simp_all add: singleTicketExactMatchProb_def nCk_vals)

lemma upto6: "{0..6::nat} = {0, 1, 2, 3, 4, 5, 6}"
  by auto

lemma sum7: "(\<Sum>r = 0..6. singleTicketExactMatchProb (int r)) = 1"
  by (simp add: upto6 prob_vals)








lemma floor_rat_numeral: "\<lfloor>numeral a / numeral b :: rat\<rfloor> = numeral a div numeral b"
  using floor_divide_of_int_eq[of "numeral a" "numeral b", where ?'a = rat] by simp

lemma ceiling_rat_numeral: "\<lceil>numeral a / numeral b :: rat\<rceil> = - ((- numeral a) div numeral b)"
  using ceiling_divide_eq_div[of "numeral a" "numeral b", where ?'a = rat] by simp

lemma ilog2_numeral:
  "ilog2 (numeral w) = (if numeral w < (2::nat) then 0 else Suc (ilog2 (numeral w div 2)))"
  "ilog2 0 = 0" "ilog2 1 = 0" "ilog2 (Suc 0) = 0"
  by (simp_all add: ilog2.simps[of "numeral w"] ilog2.simps[of 0] ilog2.simps[of 1] ilog2.simps[of "Suc 0"])

lemmas fl64_eval = fl64_def binade_def roundTiesToEven_def ilog2_numeral Let_def floor_rat_numeral
  ceiling_rat_numeral

lemma choose_vals: "(90::nat) choose 6 = 622614630" "(55::nat) choose 26 = 3560597348629860"
  by (simp_all add: binomial_fact' fact_numeral)

lemma int_0_6: "0 \<le> r \<Longrightarrow> r \<le> 6 \<Longrightarrow> r \<in> {0, 1, 2, 3, 4, 5, 6::int}"
  by auto

lemma prob_rounding:
  assumes "0 \<le> r" "r \<le> 6"
  shows "fl64 (nCk 6 r * nCk 84 (6 - r)) = nCk 6 r * nCk 84 (6 - r)"
    and "\<bar>fl64 (singleTicketExactMatchProb r) - singleTicketExactMatchProb r\<bar> \<le>
         singleTicketExactMatchProb r / 2 ^ 53"
proof -
  have "fl64 (nCk 6 r * nCk 84 (6 - r)) = nCk 6 r * nCk 84 (6 - r) \<and>
        \<bar>fl64 (singleTicketExactMatchProb r) - singleTicketExactMatchProb r\<bar> \<le>
         singleTicketExactMatchProb r / 2 ^ 53"
    if "r \<in> {0, 1, 2, 3, 4, 5, 6}"
    using that
    by (elim insertE emptyE) (simp_all add: nCk_vals prob_vals fl64_numeral fl64_eval)
  with int_0_6[OF assms] show "fl64 (nCk 6 r * nCk 84 (6 - r)) = nCk 6 r * nCk 84 (6 - r)"
    and "\<bar>fl64 (singleTicketExactMatchProb r) - singleTicketExactMatchProb r\<bar> \<le>
         singleTicketExactMatchProb r / 2 ^ 53"
    by simp_all
qed

text \<open>
  Claim C7. \<open>nCk n k\<close> is the binomial coefficient whenever \<open>min(k, n-k) C(n,k)\<close>, the
  largest product the loop forms, is at most \<open>2^53\<close>, and so for every \<open>n \<le> 90\<close> with
  \<open>k\<close> or \<open>n - k\<close> at most 6, which covers each call of the program; it is 0 outside
  \<open>0 \<le> k \<le> n\<close>. \<open>singleTicketExactMatchProb r\<close> is \<open>C(6,r) C(84,6-r) / C(90,6)\<close> for \<open>r\<close>
  in \<open>0..6\<close>; its numerator is exact in the doubles, and the double nearest to it, which
  the source returns, is off by at most its \<open>2^-53\<close>-fold. The seven probabilities sum to
  1 and the probability of six matches is \<open>1 / C(90,6)\<close>.
\<close>

theorem nCk_exact_match_probabilities:
  "(0 \<le> k \<and> k \<le> n \<and> min k (n - k) * int (nat n choose nat k) \<le> 2 ^ 53 \<longrightarrow>
      nCk n k = of_nat (nat n choose nat k)) \<and>
   (0 \<le> k \<and> k \<le> n \<and> n \<le> 90 \<and> min k (n - k) \<le> 6 \<longrightarrow>
      nCk n k = of_nat (nat n choose nat k)) \<and>
   (k < 0 \<or> n < k \<longrightarrow> nCk n k = 0) \<and>
   (0 \<le> r \<and> r \<le> 6 \<longrightarrow>
      singleTicketExactMatchProb r =
        of_nat (6 choose nat r) * of_nat (84 choose nat (6 - r)) / of_nat (90 choose 6)) \<and>
   (0 \<le> r \<and> r \<le> 6 \<longrightarrow>
      fl64 (nCk 6 r * nCk 84 (6 - r)) = nCk 6 r * nCk 84 (6 - r) \<and>
      \<bar>fl64 (singleTicketExactMatchProb r) - singleTicketExactMatchProb r\<bar> \<le>
        singleTicketExactMatchProb r / 2 ^ 53) \<and>
   (\<Sum>i = 0..6. singleTicketExactMatchProb (int i)) = 1 \<and>
   singleTicketExactMatchProb 6 = 1 / of_nat (90 choose 6)"
proof -
  have small: "nCk n k = of_nat (nat n choose nat k)"
    if "0 \<le> k" "k \<le> n" "n \<le> 90" "min k (n - k) \<le> 6" for n k
    using that by (intro nCk_binomial nCk_bound_small)
  have total: "nCk 90 6 = of_nat (90 choose 6)"
    using small[of 6 90] by simp
  have A: "0 \<le> k \<and> k \<le> n \<and> min k (n - k) * int (nat n choose nat k) \<le> 2 ^ 53 \<longrightarrow>
      nCk n k = of_nat (nat n choose nat k)"
    by (simp add: nCk_binomial)
  have A': "0 \<le> k \<and> k \<le> n \<and> n \<le> 90 \<and> min k (n - k) \<le> 6 \<longrightarrow>
      nCk n k = of_nat (nat n choose nat k)"
    by (simp add: small)
  have B: "k < 0 \<or> n < k \<longrightarrow> nCk n k = 0"
    by (auto simp: nCk_def)
  have C: "0 \<le> r \<and> r \<le> 6 \<longrightarrow>
      singleTicketExactMatchProb r =
        of_nat (6 choose nat r) * of_nat (84 choose nat (6 - r)) / of_nat (90 choose 6)"
  proof
    assume r: "0 \<le> r \<and> r \<le> 6"
    have "nCk 6 r = of_nat (6 choose nat r)"
      using small[of r 6] r by simp
    moreover have "nCk 84 (6 - r) = of_nat (84 choose nat (6 - r))"
      using small[of "6 - r" 84] r by simp
    ultimately show "singleTicketExactMatchProb r =
        of_nat (6 choose nat r) * of_nat (84 choose nat (6 - r)) / of_nat (90 choose 6)"
      unfolding singleTicketExactMatchProb_def Let_def total by simp
  qed
  have C': "0 \<le> r \<and> r \<le> 6 \<longrightarrow>
      fl64 (nCk 6 r * nCk 84 (6 - r)) = nCk 6 r * nCk 84 (6 - r) \<and>
      \<bar>fl64 (singleTicketExactMatchProb r) - singleTicketExactMatchProb r\<bar> \<le>
        singleTicketExactMatchProb r / 2 ^ 53"
    using prob_rounding[of r] by simp
  have D: "(\<Sum>i = 0..6. singleTicketExactMatchProb (int i)) = 1"
    by (rule sum7)
  have E: "singleTicketExactMatchProb 6 = 1 / of_nat (90 choose 6)"
    unfolding singleTicketExactMatchProb_def Let_def total by (simp add: nCk_vals)
  from A A' B C C' D E show ?thesis by blast
qed

text \<open>At \<open>n = 90\<close>, \<open>k = 6\<close>, \<open>r = 3\<close>, and outside the range at \<open>n = 5\<close>, \<open>k = 7\<close>.\<close>

theorem nCk_exact_match_probabilities_witness:
  "min 6 (90 - 6) * int (90 choose 6) \<le> 2 ^ 53 \<and>
   nCk 90 6 = of_nat (90 choose 6) \<and> nCk 90 6 = 622614630 \<and> nCk 5 7 = 0 \<and>
   singleTicketExactMatchProb 3 = of_nat (6 choose 3) * of_nat (84 choose 3) / of_nat (90 choose 6)"
  using nCk_exact_match_probabilities[of 6 90 3] nCk_exact_match_probabilities[of 7 5 3]
  by (simp add: nCk_vals choose_vals)

text \<open>Claim C7 as stated fails: at \<open>n = 55\<close>, \<open>k = 26\<close> the last product of the loop,
  \<open>26 C(55,26)\<close>, is a tie between two doubles and is rounded down by 8; the quotient by
  26 is rounded again, and \<^verbatim>\<open>nCk\<close> returns \<open>3560597348629859.5\<close>.\<close>

theorem nCk_rounding_counterexample:
  "(55::nat) choose 26 = 3560597348629860 \<and>
   fl64 (26 * of_nat (55 choose 26)) = 26 * of_nat (55 choose 26) - 8 \<and>
   nCk 55 26 = 7121194697259719 / 2 \<and>
   nCk 55 26 \<noteq> of_nat (55 choose 26)"
proof -
  have v: "nCk 55 26 = 7121194697259719 / 2"
    by (simp add: nCk_def fl64_eval)
  have p: "fl64 92575531064376360 = 92575531064376352"
    by (simp add: fl64_eval)
  show ?thesis
    unfolding v choose_vals using p by simp
qed

section \<open>Facts about sets, draws and the fill loop\<close>

lemma floor_scaled_draw:
  "\<lfloor>(of_int a / 4294967296 :: rat) * of_int b\<rfloor> = (a * b) div 4294967296"
proof -
  have "(of_int a / 4294967296 :: rat) * of_int b = of_int (a * b) / of_int 4294967296"
    by simp
  then show ?thesis
    by (simp only: floor_divide_of_int_eq)
qed

lemma rngInt_div:
  "rngInt rng s mn mx =
     (let (w, s') = rng s in ((uint w * (mx - mn + 1)) div 4294967296 + mn, s'))"
  unfolding rngInt_def floor_scaled_draw ..

lemma rngInt_range:
  assumes "rngInt rng s MIN_NUM MAX_NUM = (x, s')"
  shows "1 \<le> x \<and> x \<le> 90"
proof -
  obtain w s1 where w: "rng s = (w, s1)" by force
  have x: "x = (uint w * 90) div 4294967296 + 1"
    using assms unfolding rngInt_div MIN_NUM_def MAX_NUM_def w Let_def prod.case by simp
  have "0 \<le> uint w" "uint w < 4294967296"
    using uint_lt2p[of w] by simp_all
  then have le: "uint w * 90 \<le> 4294967295 * 90" and ge: "0 \<le> uint w * 90"
    by simp_all
  have "(uint w * 90) div 4294967296 \<le> (4294967295 * 90) div 4294967296"
    by (rule zdiv_mono1[OF le]) simp
  moreover have "0 \<le> (uint w * 90) div 4294967296"
    using ge by (simp add: pos_imp_zdiv_nonneg_iff)
  ultimately have "0 \<le> (uint w * 90) div 4294967296" "(uint w * 90) div 4294967296 \<le> 89"
    by simp_all
  then show ?thesis unfolding x by simp
qed

lemma set_set_add [simp]: "set (set_add xs x) = insert x (set xs)"
  by (auto simp: set_add_def)

lemma distinct_set_add [simp]: "distinct (set_add xs x) = distinct xs"
  by (auto simp: set_add_def)

lemma set_foldl_set_add [simp]: "set (foldl set_add acc xs) = set acc \<union> set xs"
  by (induction xs arbitrary: acc) auto

lemma distinct_foldl_set_add [simp]: "distinct (foldl set_add acc xs) = distinct acc"
  by (induction xs arbitrary: acc) auto

lemma length_new_Set: "length (foldl set_add [] xs) = card (set xs)"
  using distinct_card[of "foldl set_add [] xs"] by simp

lemma isValidSestina_iff:
  "isValidSestina ns c \<longleftrightarrow>
     set ns \<inter> set (exclude c) = {} \<and> set (mustInclude c) \<subseteq> set ns \<and>
     (mustIncludeAnyOf c = [] \<or> set ns \<inter> set (mustIncludeAnyOf c) \<noteq> {})"
  by (auto simp: isValidSestina_def new_Set_def Let_def list_ex_iff)

lemma fillLoop_Inr:
  "fillLoop rng c picked guard s = (Inr picked', s') \<Longrightarrow> distinct picked \<Longrightarrow> length picked \<le> 6 \<Longrightarrow>
   length picked' = 6 \<and> distinct picked' \<and> set picked \<subseteq> set picked' \<and>
   (\<forall>x \<in> set picked' - set picked. 1 \<le> x \<and> x \<le> 90 \<and> x \<notin> set (exclude c))"
proof (induction rng c picked guard s rule: fillLoop.induct)
  case (1 rng c picked guard s)
  show ?case
  proof (cases "length picked < 6")
    case False
    with 1(4,5,6) show ?thesis by (subst (asm) fillLoop.simps) simp
  next
    case True
    note lt = this
    show ?thesis
    proof (cases "guard + 1 > 100000")
      case True
      with lt 1(4) show ?thesis by (subst (asm) fillLoop.simps) simp
    next
      case False
      note g = this
      obtain x s1 where r: "rngInt rng s MIN_NUM MAX_NUM = (x, s1)" by force
      note xr = rngInt_range[OF r]
      show ?thesis
      proof (cases "x \<in> set picked")
        case True
        then have "fillLoop rng c picked (guard + 1) s1 = (Inr picked', s')"
          using 1(4) lt g r by (subst (asm) fillLoop.simps) simp
        from 1(1)[OF lt refl g r[symmetric] refl True this 1(5,6)] show ?thesis .
      next
        case False
        note np = this
        show ?thesis
        proof (cases "x \<in> set (exclude c)")
          case True
          then have "fillLoop rng c picked (guard + 1) s1 = (Inr picked', s')"
            using 1(4) lt g r np by (subst (asm) fillLoop.simps) simp
          from 1(2)[OF lt refl g r[symmetric] refl np True this 1(5,6)] show ?thesis .
        next
          case False
          then have "fillLoop rng c (set_add picked x) (guard + 1) s1 = (Inr picked', s')"
            using 1(4) lt g r np by (subst (asm) fillLoop.simps) simp
          moreover have "distinct (set_add picked x)" "length (set_add picked x) \<le> 6"
            using 1(5) lt np by (simp_all add: set_add_def)
          ultimately have "length picked' = 6 \<and> distinct picked' \<and> set (set_add picked x) \<subseteq> set picked' \<and>
            (\<forall>y \<in> set picked' - set (set_add picked x). 1 \<le> y \<and> y \<le> 90 \<and> y \<notin> set (exclude c))"
            using 1(3)[OF lt refl g r[symmetric] refl np False] by blast
          then show ?thesis using xr False by auto
        qed
      qed
    qed
  qed
qed

section \<open>Facts about the sampler\<close>

lemma fillLoop_Inl:
  "fillLoop rng c picked guard s = (Inl e, s') \<Longrightarrow> e = GenerationExhausted"
proof (induction rng c picked guard s rule: fillLoop.induct)
  case (1 rng c picked guard s)
  obtain x s1 where r: "rngInt rng s MIN_NUM MAX_NUM = (x, s1)" by force
  show ?case
  proof (cases "length picked < 6 \<and> \<not> guard + 1 > 100000")
    case False
    with 1(4) show ?thesis by (subst (asm) fillLoop.simps) (auto split: if_splits)
  next
    case True
    then have lt: "length picked < 6" and g: "\<not> guard + 1 > 100000" by simp_all
    consider (a) "x \<in> set picked" | (b) "x \<notin> set picked" "x \<in> set (exclude c)"
      | (c) "x \<notin> set picked" "x \<notin> set (exclude c)" by blast
    then show ?thesis
    proof cases
      case a
      then have "fillLoop rng c picked (guard + 1) s1 = (Inl e, s')"
        using 1(4) lt g r by (subst (asm) fillLoop.simps) simp
      from 1(1)[OF lt refl g r[symmetric] refl a this] show ?thesis .
    next
      case b
      then have "fillLoop rng c picked (guard + 1) s1 = (Inl e, s')"
        using 1(4) lt g r by (subst (asm) fillLoop.simps) simp
      from 1(2)[OF lt refl g r[symmetric] refl b this] show ?thesis .
    next
      case c
      then have "fillLoop rng c (set_add picked x) (guard + 1) s1 = (Inl e, s')"
        using 1(4) lt g r by (subst (asm) fillLoop.simps) simp
      from 1(3)[OF lt refl g r[symmetric] refl c this] show ?thesis .
    qed
  qed
qed

lemma fillLoop_full: "6 \<le> length picked \<Longrightarrow> fillLoop rng c picked guard s = (Inr picked, s)"
  by (subst fillLoop.simps) simp

lemmas sampler_induct =
  generateRandomSestinaWithConstraints.raw_induct[rotated, consumes 1, case_names step]

lemma sampler_Inr_aux:
  assumes "generateRandomSestinaWithConstraints rng c s = Some y"
  shows "\<forall>ns s'. y = (Inr ns, s') \<longrightarrow>
     length ns = 6 \<and> distinct ns \<and> sorted ns \<and> isValidSestina ns c \<and>
     (\<forall>x \<in> set ns. x \<in> set (mustInclude c) \<or> (1 \<le> x \<and> x \<le> 90))"
  using assms
proof (induction rng c s y rule: sampler_induct)
  case (step f rng c s y)
  let ?picked = "foldl set_add [] (mustInclude c)"
  show ?case
  proof (intro allI impI)
    fix ns s'
    assume y: "y = (Inr ns, s')"
    have le: "\<not> 6 < length ?picked"
      using step(2) y by (auto simp: Let_def split: if_splits)
    obtain r s1 where fl: "fillLoop rng c ?picked 0 s = (r, s1)" by force
    obtain p where r: "r = Inr p"
      using step(2) y le fl by (cases r) (auto simp: Let_def)
    have fill: "length p = 6 \<and> distinct p \<and> set ?picked \<subseteq> set p \<and>
       (\<forall>x \<in> set p - set ?picked. 1 \<le> x \<and> x \<le> 90 \<and> x \<notin> set (exclude c))"
      using fillLoop_Inr[OF fl[unfolded r]] le by simp
    show "length ns = 6 \<and> distinct ns \<and> sorted ns \<and> isValidSestina ns c \<and>
       (\<forall>x \<in> set ns. x \<in> set (mustInclude c) \<or> (1 \<le> x \<and> x \<le> 90))"
    proof (cases "isValidSestina (normalizeNums p) c")
      case True
      then have "ns = normalizeNums p"
        using step(2) y le fl r by (simp add: Let_def)
      then show ?thesis using fill True by (auto simp: normalizeNums_def)
    next
      case False
      then have "f rng c s1 = Some y"
        using step(2) le fl r by (simp add: Let_def)
      from step(1)[OF this] y show ?thesis by blast
    qed
  qed
qed

lemma sampler_Inr:
  assumes "generateRandomSestinaWithConstraints rng c s = Some (Inr ns, s')"
  shows "length ns = 6 \<and> distinct ns \<and> sorted ns \<and> isValidSestina ns c \<and>
     (\<forall>x \<in> set ns. x \<in> set (mustInclude c) \<or> (1 \<le> x \<and> x \<le> 90))"
  using sampler_Inr_aux[OF assms] by simp

lemma sampler_Inl_aux:
  assumes "generateRandomSestinaWithConstraints rng c s = Some y"
  shows "(\<forall>e s'. y = (Inl e, s') \<longrightarrow> e \<noteq> UniquenessExhausted \<and>
            (e = ImpossibleConstraint \<longrightarrow> 6 < card (set (mustInclude c))))"
  using assms
proof (induction rng c s y rule: sampler_induct)
  case (step f rng c s y)
  let ?picked = "foldl set_add [] (mustInclude c)"
  obtain r s1 where fl: "fillLoop rng c ?picked 0 s = (r, s1)" by force
  show ?case
  proof (cases "6 < length ?picked")
    case True
    then show ?thesis using step(2) by (auto simp: Let_def length_new_Set)
  next
    case False
    note le = this
    show ?thesis
    proof (cases r)
      case (Inl e)
      then have "y = (Inl e, s1)" using step(2) le fl by (simp add: Let_def)
      moreover have "e = GenerationExhausted" by (rule fillLoop_Inl[OF fl[unfolded Inl]])
      ultimately show ?thesis by simp
    next
      case (Inr p)
      show ?thesis
      proof (cases "isValidSestina (normalizeNums p) c")
        case True
        then have "y = (Inr (normalizeNums p), s1)"
          using step(2) le fl Inr by (simp add: Let_def)
        then show ?thesis by simp
      next
        case False
        then have "f rng c s1 = Some y"
          using step(2) le fl Inr by (simp add: Let_def)
        from step(1)[OF this] show ?thesis .
      qed
    qed
  qed
qed

lemma sampler_Impossible:
  "6 < card (set (mustInclude c)) \<Longrightarrow>
   generateRandomSestinaWithConstraints rng c s = Some (Inl ImpossibleConstraint, s)"
  by (subst generateRandomSestinaWithConstraints.simps) (simp add: Let_def length_new_Set)

lemma sampler_total:
  assumes card: "card (set (mustInclude c)) \<le> 6"
    and disj: "set (exclude c) \<inter> set (mustInclude c) = {}"
    and anyOf: "mustIncludeAnyOf c = [] \<or> set (mustIncludeAnyOf c) \<inter> set (mustInclude c) \<noteq> {}"
  shows "generateRandomSestinaWithConstraints rng c s =
     (case fillLoop rng c (foldl set_add [] (mustInclude c)) 0 s of
        (Inl e, s') \<Rightarrow> Some (Inl e, s')
      | (Inr picked', s') \<Rightarrow> Some (Inr (normalizeNums picked'), s'))"
proof -
  let ?picked = "foldl set_add [] (mustInclude c)"
  obtain r s1 where fl: "fillLoop rng c ?picked 0 s = (r, s1)" by force
  have le: "\<not> 6 < length ?picked" using card by (simp add: length_new_Set)
  show ?thesis
  proof (cases r)
    case (Inl e)
    then show ?thesis using fl le
      by (subst generateRandomSestinaWithConstraints.simps) (simp add: Let_def)
  next
    case (Inr p)
    have fill: "length p = 6 \<and> distinct p \<and> set ?picked \<subseteq> set p \<and>
       (\<forall>x \<in> set p - set ?picked. 1 \<le> x \<and> x \<le> 90 \<and> x \<notin> set (exclude c))"
      using fillLoop_Inr[OF fl[unfolded Inr]] le by simp
    have "isValidSestina (normalizeNums p) c"
      unfolding isValidSestina_iff normalizeNums_def using fill disj anyOf by auto
    then show ?thesis using fl le Inr
      by (subst generateRandomSestinaWithConstraints.simps) (simp add: Let_def)
  qed
qed

lemma sampler_diverges:
  fixes rng :: "'s RNG"
  assumes "length (foldl set_add [] (mustInclude c)) = 6"
    and "\<not> isValidSestina (normalizeNums (foldl set_add [] (mustInclude c))) c"
  shows "generateRandomSestinaWithConstraints rng c s = None"
proof -
  have never: "c' \<noteq> c"
    if "generateRandomSestinaWithConstraints rng' c' s' = Some y" for rng' :: "'s RNG" and c' s' y
    using that
  proof (induction rng' c' s' y rule: sampler_induct)
    case (step f rng' c' s' y)
    show ?case
    proof
      assume c: "c' = c"
      have "f rng' c s' = Some y"
        using step(2) assms unfolding c by (simp add: Let_def fillLoop_full)
      from step(1)[OF this] show False by simp
    qed
  qed
  show ?thesis
  proof (cases "generateRandomSestinaWithConstraints rng c s")
    case None
    then show ?thesis .
  next
    case (Some y)
    from never[OF this] show ?thesis by simp
  qed
qed

section \<open>Facts about the allocator\<close>

definition freshSestina :: "Constraints \<Rightarrow> Sestina \<Rightarrow> bool" where
  "freshSestina c x \<longleftrightarrow>
     \<not> frozen x \<and> key x = sestinaKey (nums x) \<and> length (nums x) = 6 \<and> distinct (nums x) \<and>
     sorted (nums x) \<and> isValidSestina (nums x) c"

lemma slotLoop_Some:
  assumes "slotLoop rng fac c opts now i nonce keys f = Some (r, keys', f')"
  shows "case r of
           Inl e \<Rightarrow> keys' = keys
         | Inr x \<Rightarrow> key x \<notin> set keys \<and> keys' = keys @ [key x] \<and>
                    Sestina.createdAt x = now + int i \<and> freshSestina c x"
  using assms
proof (induction rng fac c opts now i nonce keys f rule: slotLoop.induct)
  case (1 rng fac c opts now i nonce keys f)
  obtain r0 f0 where fac: "fac nonce f = (r0, f0)" by force
  note run = 1(2)[unfolded slotLoop.simps[of rng fac c opts now i nonce keys f] fac Let_def prod.case]
  show ?case
  proof (cases "generateRandomSestinaWithConstraints rng c r0")
    case None
    with run show ?thesis by simp
  next
    case (Some y)
    obtain res s1 where y: "y = (res, s1)" by force
    show ?thesis
    proof (cases res)
      case (Inl e)
      with run Some y show ?thesis by auto
    next
      case (Inr ns)
      note gen = Some[unfolded y Inr]
      note good = sampler_Inr[OF gen]
      show ?thesis
      proof (cases "sestinaKey ns \<in> set keys")
        case False
        with run gen good show ?thesis
          by (auto simp: set_add_def freshSestina_def)
      next
        case True
        note dup = this
        show ?thesis
        proof (cases "50000 < nonce + 1")
          case True
          with run gen dup show ?thesis by auto
        next
          case False
          have rec: "slotLoop rng fac c opts now i (nonce + 1) keys f0 = Some (r, keys', f')"
            using run gen dup False by simp
          have d: "\<not> sestinaKey ns \<notin> set keys" using dup by simp
          show ?thesis
            by (rule 1(1)[OF refl fac[symmetric] gen refl refl refl d refl False rec])
        qed
      qed
    qed
  qed
qed

lemma forLoop_Some:
  assumes "forLoop rng fac c opts now count i out keys f = Some (r, keys', f')"
  shows "\<exists>new. keys' = keys @ map key new \<and> distinct (map key new) \<and>
           set (map key new) \<inter> set keys = {} \<and>
           map Sestina.createdAt new = map (\<lambda>j. now + int j) [i..<i + length new] \<and>
           list_all (freshSestina c) new \<and>
           (case r of Inr out' \<Rightarrow> out' = out @ new \<and> length new = count - i
            | Inl e \<Rightarrow> length new < count - i)"
  using assms
proof (induction rng fac c opts now count i out keys f rule: forLoop.induct)
  case (1 rng fac c opts now count i out keys f)
  note run = 1(2)[unfolded forLoop.simps[of rng fac c opts now count i out keys f]]
  show ?case
  proof (cases "i < count")
    case False
    with run have "r = Inr out" "keys' = keys" by simp_all
    then show ?thesis using False by (intro exI[of _ "[]"]) simp
  next
    case True
    note lt = this
    show ?thesis
    proof (cases "slotLoop rng fac c opts now i 0 keys f")
      case None
      with run lt show ?thesis by simp
    next
      case (Some y)
      obtain res k1 f1 where y: "y = (res, k1, f1)" by (cases y) auto
      note slot = slotLoop_Some[OF Some[unfolded y]]
      show ?thesis
      proof (cases res)
        case (Inl e)
        then have "r = Inl e" "keys' = k1" using run lt Some y by simp_all
        moreover have "k1 = keys" using slot Inl by simp
        ultimately show ?thesis using lt by (intro exI[of _ "[]"]) simp
      next
        case (Inr x)
        have sx: "key x \<notin> set keys" "k1 = keys @ [key x]" "Sestina.createdAt x = now + int i"
          "freshSestina c x"
          using slot Inr by simp_all
        have rec: "forLoop rng fac c opts now count (i + 1) (out @ [x]) k1 f1 = Some (r, keys', f')"
          using run lt Some y Inr by simp
        from 1(1)[OF lt Some[unfolded y Inr] refl refl refl rec]
        obtain new where new: "keys' = k1 @ map key new" "distinct (map key new)"
          "set (map key new) \<inter> set k1 = {}"
          "map Sestina.createdAt new = map (\<lambda>j. now + int j) [i + 1..<i + 1 + length new]"
          "list_all (freshSestina c) new"
          "case r of Inr out' \<Rightarrow> out' = (out @ [x]) @ new \<and> length new = count - (i + 1)
            | Inl e \<Rightarrow> length new < count - (i + 1)"
          by blast
        have a: "keys' = keys @ map key (x # new)" using new(1) sx(2) by simp
        have b: "distinct (map key (x # new))" using new(2,3) sx(2) by auto
        have c: "set (map key (x # new)) \<inter> set keys = {}" using new(3) sx(1,2) by auto
        have u: "[i..<i + length (x # new)] = i # [i + 1..<i + 1 + length new]"
          using upt_conv_Cons[of i "Suc (i + length new)"] by simp
        have d: "map Sestina.createdAt (x # new) = map (\<lambda>j. now + int j) [i..<i + length (x # new)]"
          unfolding u list.map using new(4) sx(3) by (simp only:)
        have e: "list_all (freshSestina c) (x # new)" using new(5) sx(4) by simp
        have g: "case r of Inr out' \<Rightarrow> out' = out @ (x # new) \<and> length (x # new) = count - i
            | Inl e \<Rightarrow> length (x # new) < count - i"
          using new(6) lt by (cases r) auto
        from a b c d e g show ?thesis by blast
      qed
    qed
  qed
qed

lemma sampler_six:
  assumes "length (foldl set_add [] (mustInclude c)) = 6"
    and "isValidSestina (normalizeNums (foldl set_add [] (mustInclude c))) c"
  shows "generateRandomSestinaWithConstraints rng c s =
     Some (Inr (normalizeNums (foldl set_add [] (mustInclude c))), s)"
  using assms
  by (subst generateRandomSestinaWithConstraints.simps) (simp add: Let_def fillLoop_full)

lemma slotLoop_exhausted:
  assumes gen: "\<And>r. generateRandomSestinaWithConstraints rng c r = Some (Inr ns, r)"
    and dup: "sestinaKey ns \<in> set keys"
    and fac: "\<And>n g. snd (fac n g) = g"
  shows "nonce \<le> 50000 \<Longrightarrow>
    slotLoop rng fac c opts now i nonce keys f = Some (Inl UniquenessExhausted, keys, f)"
proof (induction "50000 - nonce" arbitrary: nonce)
  case 0
  then have n: "nonce = 50000" by simp
  obtain r0 where f0: "fac 50000 f = (r0, f)" using fac[of 50000 f] by (cases "fac 50000 f") auto
  show ?case unfolding n
    by (subst slotLoop.simps) (simp add: f0 gen dup Let_def)
next
  case (Suc k)
  then have n: "nonce + 1 \<le> 50000" "k = 50000 - (nonce + 1)" by simp_all
  obtain r0 where f0: "fac nonce f = (r0, f)" using fac[of nonce f] by (cases "fac nonce f") auto
  have "slotLoop rng fac c opts now i (nonce + 1) keys f = Some (Inl UniquenessExhausted, keys, f)"
    by (rule Suc(1)[OF n(2) n(1)])
  then show ?case using n(1)
    by (subst slotLoop.simps) (simp add: f0 gen dup Let_def)
qed

lemma fillLoop_exhausted:
  "{1..90} \<subseteq> set (exclude c) \<Longrightarrow> length picked < 6 \<Longrightarrow>
   fst (fillLoop rng c picked guard s) = Inl GenerationExhausted"
proof (induction rng c picked guard s rule: fillLoop.induct)
  case (1 rng c picked guard s)
  obtain x s1 where r: "rngInt rng s MIN_NUM MAX_NUM = (x, s1)" by force
  have xe: "x \<in> set (exclude c)" using rngInt_range[OF r] 1(4) by auto
  show ?case
  proof (cases "guard + 1 > 100000")
    case True
    then show ?thesis using 1(5) by (subst fillLoop.simps) simp
  next
    case False
    show ?thesis
    proof (cases "x \<in> set picked")
      case True
      have "fst (fillLoop rng c picked (guard + 1) s1) = Inl GenerationExhausted"
        by (rule 1(1)[OF 1(5) refl False r[symmetric] refl True 1(4,5)])
      then show ?thesis using 1(5) False True r by (subst fillLoop.simps) simp
    next
      case np: False
      have "fst (fillLoop rng c picked (guard + 1) s1) = Inl GenerationExhausted"
        by (rule 1(2)[OF 1(5) refl False r[symmetric] refl np xe 1(4,5)])
      then show ?thesis using 1(5) False np xe r by (subst fillLoop.simps) simp
    qed
  qed
qed

lemma key_123456: "sestinaKey [1, 2, 3, 4, 5, 6] = ''1-2-3-4-5-6''"
  by (simp add: sestinaKey_def normalizeNums_def showInt_def showNat.simps digitChar_def)

section \<open>Termination of the chunk loop\<close>

lemma generateUniqueSestine_length:
  assumes "generateUniqueSestine count keys rng fac c opts now f = Some (Inr out, keys', f')"
  shows "length out = count"
  using forLoop_Some[OF assms[unfolded generateUniqueSestine_def]] by auto

lemma chunkSize_pos: "0 < chunkSize n"
  by (simp add: chunkSize_def)

termination chunkLoop
proof (relation "measure (\<lambda>(env, st, g, c, sd, baseSeedNum, n, produced, nonceBase, allGenerated, keys, k).
                    n - produced)", goal_cases)
  case 1
  show ?case by simp
next
  case (2 env st g c sd baseSeedNum n produced nonceBase allGenerated keys k take rngFactory res r rest chunk keys' u)
  have "length chunk = take"
    using 2(5)[unfolded 2(6)[symmetric] 2(7) 2(8)[symmetric]] by (rule generateUniqueSestine_length)
  moreover have "0 < take" using 2(1,3) chunkSize_pos[of n] by simp
  ultimately show ?case using 2(1) by simp
qed

declare chunkLoop.simps [simp del]

lemma generateUniqueSestine_ref_Some:
  assumes "generateUniqueSestine_ref count a h rng fac c opts now f = Some (r, h', f')"
  shows "generateUniqueSestine count (cells h a) rng fac c opts now f = Some (r, cells h' a, f')"
    and "h' = Set_write h a (cells h' a)"
  using assms
  by (auto simp: generateUniqueSestine_ref_def Set_write_def split: option.splits)

termination chunkLoop_ref
proof (relation "measure (\<lambda>(env, st, g, c, sd, baseSeedNum, n, produced, nonceBase, allGenerated, keys, h, k).
                    n - produced)", goal_cases)
  case 1
  show ?case by simp
next
  case (2 env st g c sd baseSeedNum n produced nonceBase allGenerated keys h k take rngFactory res r rest chunk h' u)
  have "generateUniqueSestine_ref take keys h mulberry32_next rngFactory c (batchOptions st sd)
          (clock env k) () = Some (Inr chunk, h', u)"
    using 2(5)[unfolded 2(6)[symmetric] 2(7) 2(8)[symmetric]] .
  then have "length chunk = take"
    using generateUniqueSestine_ref_Some(1) generateUniqueSestine_length by fast
  moreover have "0 < take" using 2(1,3) chunkSize_pos[of n] by simp
  ultimately show ?case using 2(1) by simp
qed

declare chunkLoop_ref.simps [simp del]

section \<open>Properties of the sampler\<close>

lemmas eval_simps = fillLoop.simps rngInt_div mulberry32_next_def mulberry32_def Let_def MIN_NUM_def
  MAX_NUM_def set_add_def isValidSestina_def new_Set_def normalizeNums_def

lemma sampler_run_example:
  "generateRandomSestinaWithConstraints mulberry32_next
     \<lparr>exclude = [13], mustInclude = [7, 14], mustIncludeAnyOf = [7, 21]\<rparr> 1654296232 =
   Some (Inr [7, 14, 43, 60, 76, 80], 390624892)"
  by (subst generateRandomSestinaWithConstraints.simps) (simp add: eval_simps)

text \<open>
  Claim C3, as the code has it. Whenever the sampler returns a list, the list holds exactly
  six distinct integers in ascending order, contains every \<open>mustInclude\<close> number and no
  \<open>exclude\<close> number, meets \<open>mustIncludeAnyOf\<close> when that is not empty, and lies within
  \<open>1..90\<close> when the \<open>mustInclude\<close> numbers do. When \<open>mustInclude\<close> has at most six distinct
  numbers, none of them excluded, and \<open>mustIncludeAnyOf\<close> is empty or shares a number with
  \<open>mustInclude\<close>, the sampler does return: such a list, or the error of the fill loop's
  guard.
\<close>

theorem sampleOne_result:
  "(generateRandomSestinaWithConstraints rng c s = Some (Inr ns, s') \<longrightarrow>
      length ns = 6 \<and> distinct ns \<and> sorted ns \<and>
      set (mustInclude c) \<subseteq> set ns \<and> set ns \<inter> set (exclude c) = {} \<and>
      (mustIncludeAnyOf c \<noteq> [] \<longrightarrow> set ns \<inter> set (mustIncludeAnyOf c) \<noteq> {}) \<and>
      (set (mustInclude c) \<subseteq> {1..90} \<longrightarrow> set ns \<subseteq> {1..90})) \<and>
   (card (set (mustInclude c)) \<le> 6 \<and> set (exclude c) \<inter> set (mustInclude c) = {} \<and>
    (mustIncludeAnyOf c = [] \<or> set (mustIncludeAnyOf c) \<inter> set (mustInclude c) \<noteq> {}) \<longrightarrow>
      (\<exists>ns s'. generateRandomSestinaWithConstraints rng c s = Some (Inr ns, s')) \<or>
      (\<exists>s'. generateRandomSestinaWithConstraints rng c s = Some (Inl GenerationExhausted, s')))"
proof (intro conjI impI)
  assume run: "generateRandomSestinaWithConstraints rng c s = Some (Inr ns, s')"
  note good = sampler_Inr[OF run]
  then have v: "isValidSestina ns c" by simp
  from good show "length ns = 6" "distinct ns" "sorted ns" by simp_all
  from v show "set (mustInclude c) \<subseteq> set ns" "set ns \<inter> set (exclude c) = {}"
    by (simp_all add: isValidSestina_iff)
  { assume "mustIncludeAnyOf c \<noteq> []"
    with v show "set ns \<inter> set (mustIncludeAnyOf c) \<noteq> {}" by (simp add: isValidSestina_iff) }
  { assume "set (mustInclude c) \<subseteq> {1..90}"
    with good show "set ns \<subseteq> {1..90}" by auto }
next
  assume h: "card (set (mustInclude c)) \<le> 6 \<and> set (exclude c) \<inter> set (mustInclude c) = {} \<and>
    (mustIncludeAnyOf c = [] \<or> set (mustIncludeAnyOf c) \<inter> set (mustInclude c) \<noteq> {})"
  then have eq: "generateRandomSestinaWithConstraints rng c s =
     (case fillLoop rng c (foldl set_add [] (mustInclude c)) 0 s of
        (Inl e, s') \<Rightarrow> Some (Inl e, s')
      | (Inr picked', s') \<Rightarrow> Some (Inr (normalizeNums picked'), s'))"
    by (intro sampler_total) simp_all
  obtain r s1 where fl: "fillLoop rng c (foldl set_add [] (mustInclude c)) 0 s = (r, s1)" by force
  show "(\<exists>ns s'. generateRandomSestinaWithConstraints rng c s = Some (Inr ns, s')) \<or>
      (\<exists>s'. generateRandomSestinaWithConstraints rng c s = Some (Inl GenerationExhausted, s'))"
  proof (cases r)
    case (Inl e)
    then have "e = GenerationExhausted" using fillLoop_Inl fl by fastforce
    then show ?thesis unfolding eq fl Inl by simp
  next
    case (Inr p)
    then show ?thesis unfolding eq fl by simp
  qed
qed

text \<open>A run on the stream seeded with 1654296232.\<close>

theorem sampleOne_result_witness:
  "generateRandomSestinaWithConstraints mulberry32_next
     \<lparr>exclude = [13], mustInclude = [7, 14], mustIncludeAnyOf = [7, 21]\<rparr> 1654296232 =
   Some (Inr [7, 14, 43, 60, 76, 80], 390624892) \<and>
   length [7, 14, 43, 60, 76, 80 :: int] = 6 \<and> distinct [7, 14, 43, 60, 76, 80 :: int] \<and>
   sorted [7, 14, 43, 60, 76, 80 :: int] \<and> set [7, 14 :: int] \<subseteq> set [7, 14, 43, 60, 76, 80] \<and>
   set [7, 14, 43, 60, 76, 80] \<inter> set [13 :: int] = {} \<and>
   set [7, 14, 43, 60, 76, 80] \<inter> set [7, 21 :: int] \<noteq> {} \<and>
   set [7, 14, 43, 60, 76, 80 :: int] \<subseteq> {1..90}"
  using sampleOne_result[of mulberry32_next
     "\<lparr>exclude = [13], mustInclude = [7, 14], mustIncludeAnyOf = [7, 21]\<rparr>" 1654296232
     "[7, 14, 43, 60, 76, 80]" 390624892] sampler_run_example
  by simp

text \<open>Claim C3 as stated fails: a mandatory number above 90 is returned, and with all
  of \<open>1..90\<close> excluded the guard of the fill loop raises its error.\<close>

theorem sampleOne_always_returns_counterexample:
  "card (set (mustInclude \<lparr>exclude = [], mustInclude = [1, 2, 3, 4, 5, 91], mustIncludeAnyOf = []\<rparr>)) \<le> 6 \<and>
   set (exclude \<lparr>exclude = [], mustInclude = [1, 2, 3, 4, 5, 91], mustIncludeAnyOf = []\<rparr>) \<inter>
   set (mustInclude \<lparr>exclude = [], mustInclude = [1, 2, 3, 4, 5, 91], mustIncludeAnyOf = []\<rparr>) = {} \<and>
   generateRandomSestinaWithConstraints mulberry32_next
     \<lparr>exclude = [], mustInclude = [1, 2, 3, 4, 5, 91], mustIncludeAnyOf = []\<rparr> 0 =
     Some (Inr [1, 2, 3, 4, 5, 91], 0) \<and>
   \<not> set [1, 2, 3, 4, 5, 91] \<subseteq> {1..90 :: int} \<and>
   map_option fst (generateRandomSestinaWithConstraints mulberry32_next
     \<lparr>exclude = [1..90], mustInclude = [], mustIncludeAnyOf = []\<rparr> 0) =
     Some (Inl GenerationExhausted)"
proof -
  let ?c = "\<lparr>exclude = [1..90], mustInclude = [], mustIncludeAnyOf = []\<rparr>"
  have "fst (fillLoop mulberry32_next ?c [] 0 0) = Inl GenerationExhausted"
    by (rule fillLoop_exhausted) simp_all
  then obtain s1 where "fillLoop mulberry32_next ?c [] 0 0 = (Inl GenerationExhausted, s1)"
    by (cases "fillLoop mulberry32_next ?c [] 0 0") auto
  then have "generateRandomSestinaWithConstraints mulberry32_next ?c 0 = Some (Inl GenerationExhausted, s1)"
    by (subst generateRandomSestinaWithConstraints.simps) simp
  moreover have "generateRandomSestinaWithConstraints mulberry32_next
     \<lparr>exclude = [], mustInclude = [1, 2, 3, 4, 5, 91], mustIncludeAnyOf = []\<rparr> 0 =
     Some (Inr [1, 2, 3, 4, 5, 91], 0)"
    by (subst generateRandomSestinaWithConstraints.simps) (simp add: eval_simps)
  moreover have "card (set [1, 2, 3, 4, 5, 91 :: int]) \<le> 6"
    using card_length[of "[1, 2, 3, 4, 5, 91 :: int]"] by simp
  ultimately show ?thesis by simp
qed

text \<open>
  Claim C4 says that the retry after a failed validity check is bounded by a guard, so that
  the sampler ends for every constraints value. The retry of the source is a recursive call
  that starts its guard at 0 again; with six mandatory numbers and an \<open>mustIncludeAnyOf\<close>
  number outside them no draw is taken, every attempt fails the check, and the sampler
  never returns, whatever the stream.
\<close>

theorem sampler_retry_unbounded:
  "generateRandomSestinaWithConstraints rng
     \<lparr>exclude = [], mustInclude = [1, 2, 3, 4, 5, 6], mustIncludeAnyOf = [7]\<rparr> s = None"
  by (rule sampler_diverges) (simp_all add: set_add_def isValidSestina_def new_Set_def normalizeNums_def)

text \<open>
  Claim C5, as the code has it. The sampler raises \<open>ImpossibleConstraint\<close> exactly when
  \<open>mustInclude\<close> has more than six distinct numbers, and then the stream is in the state it
  was in before the call: no draw was taken.
\<close>

theorem ImpossibleConstraint_iff:
  "generateRandomSestinaWithConstraints rng c s = Some (Inl ImpossibleConstraint, s') \<longleftrightarrow>
     6 < card (set (mustInclude c)) \<and> s' = s"
proof
  assume run: "generateRandomSestinaWithConstraints rng c s = Some (Inl ImpossibleConstraint, s')"
  from sampler_Inl_aux[OF run] have big: "6 < card (set (mustInclude c))" by simp
  from sampler_Impossible[OF big, of rng s] run show "6 < card (set (mustInclude c)) \<and> s' = s"
    using big by simp
next
  assume "6 < card (set (mustInclude c)) \<and> s' = s"
  then show "generateRandomSestinaWithConstraints rng c s = Some (Inl ImpossibleConstraint, s')"
    using sampler_Impossible[of c rng s] by simp
qed

text \<open>Seven mandatory numbers, and seven entries that are six numbers.\<close>

theorem ImpossibleConstraint_iff_witness:
  "generateRandomSestinaWithConstraints mulberry32_next
     \<lparr>exclude = [], mustInclude = [1, 2, 3, 4, 5, 6, 7], mustIncludeAnyOf = []\<rparr> 42 =
     Some (Inl ImpossibleConstraint, 42) \<and>
   generateRandomSestinaWithConstraints mulberry32_next
     \<lparr>exclude = [], mustInclude = [1, 2, 3, 4, 5, 6, 6], mustIncludeAnyOf = []\<rparr> 42 \<noteq>
     Some (Inl ImpossibleConstraint, 42)"
proof -
  have a: "card (set [1, 2, 3, 4, 5, 6, 7 :: int]) = 7" by simp
  have b: "card (set [1, 2, 3, 4, 5, 6, 6 :: int]) = 6" by simp
  show ?thesis
    using ImpossibleConstraint_iff[of mulberry32_next
        "\<lparr>exclude = [], mustInclude = [1, 2, 3, 4, 5, 6, 7], mustIncludeAnyOf = []\<rparr>" 42 42]
      ImpossibleConstraint_iff[of mulberry32_next
        "\<lparr>exclude = [], mustInclude = [1, 2, 3, 4, 5, 6, 6], mustIncludeAnyOf = []\<rparr>" 42 42]
    by (simp only: Constraints.simps a b) simp
qed

text \<open>Claim C5 as stated fails: a mandatory number that is also excluded does not make
  the sampler raise \<open>ImpossibleConstraint\<close>.\<close>

theorem ImpossibleConstraint_overlap_counterexample:
  "set (mustInclude \<lparr>exclude = [1], mustInclude = [1, 2, 3, 4, 5, 6], mustIncludeAnyOf = []\<rparr>) \<inter>
   set (exclude \<lparr>exclude = [1], mustInclude = [1, 2, 3, 4, 5, 6], mustIncludeAnyOf = []\<rparr>) \<noteq> {} \<and>
   map_option fst (generateRandomSestinaWithConstraints mulberry32_next
     \<lparr>exclude = [1], mustInclude = [1, 2, 3, 4, 5, 6], mustIncludeAnyOf = []\<rparr> 0) \<noteq>
     Some (Inl ImpossibleConstraint)"
proof -
  have "generateRandomSestinaWithConstraints mulberry32_next
     \<lparr>exclude = [1], mustInclude = [1, 2, 3, 4, 5, 6], mustIncludeAnyOf = []\<rparr> 0 = None"
    by (rule sampler_diverges) (simp_all add: set_add_def isValidSestina_def new_Set_def normalizeNums_def)
  then show ?thesis by simp
qed

section \<open>Properties of the allocator\<close>

lemmas key_simps = sestinaKey_def normalizeNums_def showInt_def showNat.simps digitChar_def

lemma sampler_five_0:
  "generateRandomSestinaWithConstraints mulberry32_next
     \<lparr>exclude = [], mustInclude = [1, 2, 3, 4, 5], mustIncludeAnyOf = []\<rparr> 0 =
   Some (Inr [1, 2, 3, 4, 5, 24], 1831565813)"
  by (subst generateRandomSestinaWithConstraints.simps) (simp add: eval_simps)

lemma sampler_five_1:
  "generateRandomSestinaWithConstraints mulberry32_next
     \<lparr>exclude = [], mustInclude = [1, 2, 3, 4, 5], mustIncludeAnyOf = []\<rparr> 1 =
   Some (Inr [1, 2, 3, 4, 5, 57], 1831565814)"
  by (subst generateRandomSestinaWithConstraints.simps) (simp add: eval_simps)

lemma allocate_run_example:
  "generateUniqueSestine 2 [''1-2-3-4-5-7''] mulberry32_next (\<lambda>nonce f. (mulberry32 (of_nat nonce), f))
     \<lparr>exclude = [], mustInclude = [1, 2, 3, 4, 5], mustIncludeAnyOf = []\<rparr> None 1000 () =
   Some (Inr [\<lparr>nums = [1, 2, 3, 4, 5, 24], key = ''1-2-3-4-5-24'', createdAt = 1000, frozen = False,
               meta = Some \<lparr>seed = None, attemptNonce = 0, superstitionMode = None\<rparr>\<rparr>,
              \<lparr>nums = [1, 2, 3, 4, 5, 57], key = ''1-2-3-4-5-57'', createdAt = 1001, frozen = False,
               meta = Some \<lparr>seed = None, attemptNonce = 1, superstitionMode = None\<rparr>\<rparr>],
         [''1-2-3-4-5-7'', ''1-2-3-4-5-24'', ''1-2-3-4-5-57''], ())"
  by (simp add: generateUniqueSestine_def forLoop.simps slotLoop.simps sampler_five_0 sampler_five_1
        mulberry32_def set_add_def key_simps Let_def)

text \<open>
  Claim C6. When the allocator returns normally it returns exactly \<open>count\<close> combinations,
  the \<open>i\<close>-th carrying the time stamp of slot \<open>i\<close>; none of their keys was in
  \<open>existingKeys\<close>, no two keys are equal, and \<open>existingKeys\<close> has grown by exactly these
  \<open>count\<close> keys.
\<close>

theorem allocate_postcondition:
  "generateUniqueSestine count existingKeys rng rngFactory c options now f = Some (Inr out, keys', f') \<Longrightarrow>
     length out = count \<and>
     map Sestina.createdAt out = map (\<lambda>i. now + int i) [0..<count] \<and>
     set (map key out) \<inter> set existingKeys = {} \<and>
     distinct (map key out) \<and>
     keys' = existingKeys @ map key out \<and>
     length keys' = length existingKeys + count"
proof -
  assume run: "generateUniqueSestine count existingKeys rng rngFactory c options now f = Some (Inr out, keys', f')"
  from forLoop_Some[OF run[unfolded generateUniqueSestine_def]]
  obtain new where new: "keys' = existingKeys @ map key new" "distinct (map key new)"
    "set (map key new) \<inter> set existingKeys = {}"
    "map Sestina.createdAt new = map (\<lambda>j. now + int j) [0..<0 + length new]"
    "out = [] @ new" "length new = count - 0"
    by auto
  then show ?thesis by simp
qed

text \<open>Two slots on a ledger of one key; the second slot collides once.\<close>

theorem allocate_postcondition_witness:
  "length [\<lparr>nums = [1, 2, 3, 4, 5, 24], key = ''1-2-3-4-5-24'', createdAt = 1000, frozen = False,
               meta = Some \<lparr>seed = None, attemptNonce = 0, superstitionMode = None\<rparr>\<rparr>,
              \<lparr>nums = [1, 2, 3, 4, 5, 57], key = ''1-2-3-4-5-57'', createdAt = 1001, frozen = False,
               meta = Some \<lparr>seed = None, attemptNonce = 1, superstitionMode = None\<rparr>\<rparr>] = 2 \<and>
   generateUniqueSestine 2 [''1-2-3-4-5-7''] mulberry32_next (\<lambda>nonce f. (mulberry32 (of_nat nonce), f))
     \<lparr>exclude = [], mustInclude = [1, 2, 3, 4, 5], mustIncludeAnyOf = []\<rparr> None 1000 () =
   Some (Inr [\<lparr>nums = [1, 2, 3, 4, 5, 24], key = ''1-2-3-4-5-24'', createdAt = 1000, frozen = False,
               meta = Some \<lparr>seed = None, attemptNonce = 0, superstitionMode = None\<rparr>\<rparr>,
              \<lparr>nums = [1, 2, 3, 4, 5, 57], key = ''1-2-3-4-5-57'', createdAt = 1001, frozen = False,
               meta = Some \<lparr>seed = None, attemptNonce = 1, superstitionMode = None\<rparr>\<rparr>],
         [''1-2-3-4-5-7'', ''1-2-3-4-5-24'', ''1-2-3-4-5-57''], ()) \<and>
   length [''1-2-3-4-5-7'', ''1-2-3-4-5-24'', ''1-2-3-4-5-57''] = length [''1-2-3-4-5-7''] + 2"
  using allocate_postcondition[OF allocate_run_example] allocate_run_example
  by simp

section \<open>Properties of the batch operations\<close>

lemma chunkLoop_Inr:
  assumes "chunkLoop env st g c sd b n produced nonceBase allGenerated keys k = Some (Inr (all', k'))"
  shows "\<exists>new. all' = allGenerated @ new \<and> (\<not> abortRequested env k' \<longrightarrow> length new = n - produced)"
  using assms
proof (induction env st g c sd b n produced nonceBase allGenerated keys k rule: chunkLoop.induct)
  case (1 env st g c sd b n produced nonceBase allGenerated keys k)
  note run = 1(2)[unfolded chunkLoop.simps[of env st g c sd b n produced nonceBase allGenerated keys k]]
  show ?case
  proof (cases "produced < n")
    case False
    with run have "all' = allGenerated" "k' = k" by simp_all
    then show ?thesis using False by simp
  next
    case True
    note lt = this
    show ?thesis
    proof (cases "abortRequested env k")
      case True
      with run lt have "all' = allGenerated" "k' = k" by simp_all
      then show ?thesis using True by simp
    next
      case False
      note na = this
      let ?take = "min (chunkSize n) (n - produced)"
      let ?fac = "batchRngFactory (seedEnabled (settings st)) sd (id' g) (totalSestine st) b nonceBase"
      let ?call = "generateUniqueSestine ?take keys mulberry32_next ?fac c (batchOptions st sd) (clock env k) ()"
      show ?thesis
      proof (cases ?call)
        case None
        with run lt na show ?thesis by (simp add: Let_def)
      next
        case (Some y)
        obtain r keys1 u where y: "y = (r, keys1, u)" by (cases y) auto
        show ?thesis
        proof (cases r)
          case (Inl e)
          with run lt na Some y show ?thesis by (simp add: Let_def)
        next
          case (Inr chunk)
          have len: "length chunk = ?take"
            by (rule generateUniqueSestine_length[OF Some[unfolded y Inr]])
          have rec: "chunkLoop env st g c sd b n (produced + length chunk) (nonceBase + ?take * 3)
                       (allGenerated @ chunk) keys1 (k + 1) = Some (Inr (all', k'))"
            using run lt na Some y Inr by (simp add: Let_def)
          from 1(1)[OF lt na refl refl Some[unfolded y Inr] refl refl refl rec]
          obtain new where new: "all' = (allGenerated @ chunk) @ new"
            "\<not> abortRequested env k' \<longrightarrow> length new = n - (produced + length chunk)"
            by blast
          have "all' = allGenerated @ (chunk @ new)" using new(1) by simp
          moreover have "\<not> abortRequested env k' \<longrightarrow> length (chunk @ new) = n - produced"
            using new(2) len lt by auto
          ultimately show ?thesis by blast
        qed
      qed
    qed
  qed
qed

lemma generateForSelectedGroup_cases:
  assumes "generateForSelectedGroup env st sel cnt c = Some (outcome, st')"
  shows "(outcome \<noteq> Committed \<and> st' = st) \<or>
     (outcome = Committed \<and>
      (\<exists>g new ev. selectedGroup st sel = Some g \<and> length new = requestedCount cnt \<and>
         st' = st\<lparr>groups := map (\<lambda>g'. if id' g' \<noteq> id' g then g'
                                      else g'\<lparr>sestine := new @ sestine g', events := ev # events g'\<rparr>)
                              (groups st)\<rparr>))"
proof (cases "selectedGroup st sel")
  case None
  with assms show ?thesis by (simp add: generateForSelectedGroup_def)
next
  case (Some g)
  let ?n = "requestedCount cnt"
  let ?b = "fst (mulberry32_next (if seedEnabled (settings st)
                          then rngFromSeed (seedOf st @ ''::'' @ id' g @ ''::base'')
                          else mulberry32 (entropy env 0)))"
  let ?loop = "chunkLoop env st g c (seedOf st) ?b ?n 0 0 [] (new_Set (globalKeys st)) 0"
  note run = assms[unfolded generateForSelectedGroup_def Some option.case Let_def]
  show ?thesis
  proof (cases ?loop)
    case None
    with run show ?thesis by simp
  next
    case (Some y)
    note loop = this
    show ?thesis
    proof (cases y)
      case (Inl e)
      with run loop show ?thesis by auto
    next
      case (Inr z)
      obtain all' k' where z: "z = (all', k')" by force
      from chunkLoop_Inr[OF loop[unfolded Inr z]]
      have len: "\<not> abortRequested env k' \<longrightarrow> length all' = ?n" by auto
      show ?thesis
      proof (cases "abortRequested env k'")
        case True
        with run loop Inr z show ?thesis by auto
      next
        case False
        with len have l: "length all' = ?n" by simp
        have o: "outcome = Committed" and s: "st' = st\<lparr>groups :=
                           map (\<lambda>g'. if id' g' \<noteq> id' g then g'
                                     else g'\<lparr>sestine := all' @ sestine g',
                                             events :=
                                               Generate (clock env k') ?n
                                                 (if seedEnabled (settings st) then Some (seedOf st) else None) c
                                               # events g'\<rparr>)
                             (groups st)\<rparr>"
          using run loop Inr z False by simp_all
        show ?thesis
          apply (rule disjI2)
          apply (rule conjI[OF o])
          apply (rule exI[of _ g], rule exI[of _ all'], rule exI)
          apply (intro conjI)
            apply (rule \<open>selectedGroup st sel = Some g\<close>)
           apply (rule l)
          apply (rule s)
          done
      qed
    qed
  qed
qed

lemma sampler_sixFixed:
  "generateRandomSestinaWithConstraints rng sixFixed r = Some (Inr [1, 2, 3, 4, 5, 6], r)"
  using sampler_six[of sixFixed rng r]
  by (simp add: sixFixed_def set_add_def isValidSestina_def new_Set_def normalizeNums_def)

lemma slotLoop_sixFixed_fresh:
  assumes "''1-2-3-4-5-6'' \<notin> set keys"
  shows "slotLoop rng fac sixFixed opts now i nonce keys f =
      Some (Inr \<lparr>nums = [1, 2, 3, 4, 5, 6], key = ''1-2-3-4-5-6'', createdAt = now + int i, frozen = False,
               meta = Some \<lparr>seed = (case opts of None \<Rightarrow> None | Some opt \<Rightarrow> opt_seed opt),
                            attemptNonce = nonce,
                            superstitionMode =
                              (case opts of None \<Rightarrow> None | Some opt \<Rightarrow> opt_superstitionMode opt)\<rparr>\<rparr>,
            keys @ [''1-2-3-4-5-6''], snd (fac nonce f))"
  using assms
  by (subst slotLoop.simps)
     (simp add: sampler_sixFixed key_123456 set_add_def Let_def split: prod.splits)

lemma allocate_one_sixFixed:
  assumes "''1-2-3-4-5-6'' \<notin> set keys"
  shows "generateUniqueSestine 1 keys rng fac sixFixed opts now f =
      Some (Inr [\<lparr>nums = [1, 2, 3, 4, 5, 6], key = ''1-2-3-4-5-6'', createdAt = now, frozen = False,
               meta = Some \<lparr>seed = (case opts of None \<Rightarrow> None | Some opt \<Rightarrow> opt_seed opt),
                            attemptNonce = 0,
                            superstitionMode =
                              (case opts of None \<Rightarrow> None | Some opt \<Rightarrow> opt_superstitionMode opt)\<rparr>\<rparr>],
            keys @ [''1-2-3-4-5-6''], snd (fac 0 f))"
  unfolding generateUniqueSestine_def
  by (subst forLoop.simps, simp add: slotLoop_sixFixed_fresh[OF assms], subst forLoop.simps, simp)

lemmas allocate_Suc0_sixFixed = allocate_one_sixFixed[unfolded One_nat_def]

lemma allocate_two_sixFixed:
  assumes fac: "\<And>n g. snd (fac n g) = g"
  shows "generateUniqueSestine 2 [] rng fac sixFixed opts now f =
      Some (Inl UniquenessExhausted, [''1-2-3-4-5-6''], f)"
proof -
  have second: "slotLoop rng fac sixFixed opts now i 0 [''1-2-3-4-5-6''] f =
      Some (Inl UniquenessExhausted, [''1-2-3-4-5-6''], f)" for i
    by (rule slotLoop_exhausted[where ns = "[1, 2, 3, 4, 5, 6]"])
       (simp_all add: sampler_sixFixed key_123456 fac)
  show ?thesis
    unfolding generateUniqueSestine_def
    by (subst forLoop.simps, simp add: slotLoop_sixFixed_fresh fac, subst forLoop.simps, simp add: second)
qed

lemma snd_batchRngFactory [simp]:
  "snd (batchRngFactory seedOn sd gid totalCount baseSeedNum nonceBase nonce f) = f"
  by (simp add: batchRngFactory_def Let_def)

lemma batch_cancelled_example:
  "generateForSelectedGroup \<lparr>entropy = (\<lambda>k. 7), clock = (\<lambda>k. 1000), abortRequested = (\<lambda>k. 0 < k)\<rparr>
     exampleState (Some ''g'') (Some 1) sixFixed = Some (Cancelled, exampleState)"
  by (simp add: generateForSelectedGroup_def selectedGroup_def exampleState_def requestedCount_def
        globalKeys_def new_Set_def seedOf_def Let_def chunkLoop.simps chunkSize_def allocate_Suc0_sixFixed)

lemma batch_failed_example:
  "generateForSelectedGroup \<lparr>entropy = (\<lambda>k. 7), clock = (\<lambda>k. 1000), abortRequested = (\<lambda>k. False)\<rparr>
     exampleState (Some ''g'') (Some 2) sixFixed = Some (Failed UniquenessExhausted, exampleState)"
  by (simp add: generateForSelectedGroup_def selectedGroup_def exampleState_def requestedCount_def
        globalKeys_def new_Set_def seedOf_def Let_def chunkLoop.simps chunkSize_def allocate_two_sixFixed)

text \<open>
  Claim C1. However a batch generation request ends, unless it commits, the application
  state is the one before the call, and so is the global key ledger derived from it: that
  covers the cancelled batch and the batch that an error of the sampler or of the
  allocator aborted. A batch that commits adds exactly the requested number of
  combinations to the selected group.
\<close>

theorem batch_all_or_nothing:
  "generateForSelectedGroup env st sel cnt c = Some (outcome, st') \<Longrightarrow>
     (outcome \<noteq> Committed \<longrightarrow> st' = st \<and> globalKeys st' = globalKeys st) \<and>
     (outcome = Committed \<longrightarrow>
        (\<exists>g new ev. selectedGroup st sel = Some g \<and> length new = requestedCount cnt \<and>
           st' = st\<lparr>groups := map (\<lambda>g'. if id' g' \<noteq> id' g then g'
                                        else g'\<lparr>sestine := new @ sestine g', events := ev # events g'\<rparr>)
                                (groups st)\<rparr>))"
proof -
  assume run: "generateForSelectedGroup env st sel cnt c = Some (outcome, st')"
  from generateForSelectedGroup_cases[OF run] show ?thesis
    by (elim disjE conjE) simp_all
qed

text \<open>A batch of one cancelled during the suspension after its only chunk, and a batch of
  two whose second slot exhausts its nonces after the first was accepted.\<close>

theorem batch_all_or_nothing_witness:
  "generateForSelectedGroup \<lparr>entropy = (\<lambda>k. 7), clock = (\<lambda>k. 1000), abortRequested = (\<lambda>k. 0 < k)\<rparr>
     exampleState (Some ''g'') (Some 1) sixFixed = Some (Cancelled, exampleState) \<and>
   generateForSelectedGroup \<lparr>entropy = (\<lambda>k. 7), clock = (\<lambda>k. 1000), abortRequested = (\<lambda>k. False)\<rparr>
     exampleState (Some ''g'') (Some 2) sixFixed = Some (Failed UniquenessExhausted, exampleState) \<and>
   globalKeys exampleState = []"
  using batch_all_or_nothing[OF batch_cancelled_example] batch_all_or_nothing[OF batch_failed_example]
    batch_cancelled_example batch_failed_example
  by (simp add: globalKeys_def exampleState_def)

lemma set_set_delete [simp]: "set (set_delete xs x) = set xs - {x}"
  by (auto simp: set_delete_def)




lemma length_filter_frozen:
  "length (filter frozen xs) + length (filter (\<lambda>x. \<not> frozen x) xs) = length xs"
  by (induction xs) auto





lemma slotLoop_clock:
  "map_option (\<lambda>(r, ks, f'). (map_sum id nums r, ks, f')) (slotLoop rng fac c opts now1 i nonce keys f) =
   map_option (\<lambda>(r, ks, f'). (map_sum id nums r, ks, f')) (slotLoop rng fac c opts now2 i nonce keys f)"
proof (induction rng fac c opts now1 i nonce keys f rule: slotLoop.induct)
  case (1 rng fac c opts now1 i nonce keys f)
  obtain r0 f0 where fac: "fac nonce f = (r0, f0)" by force
  show ?case
  proof (cases "generateRandomSestinaWithConstraints rng c r0")
    case None
    then show ?thesis
      by (subst slotLoop.simps, subst (2) slotLoop.simps) (simp add: fac)
  next
    case (Some y)
    obtain res s1 where y: "y = (res, s1)" by force
    show ?thesis
    proof (cases res)
      case (Inl e)
      with Some y show ?thesis
        by (subst slotLoop.simps, subst (2) slotLoop.simps) (simp add: fac)
    next
      case (Inr ns)
      note gen = Some[unfolded y Inr]
      show ?thesis
      proof (cases "sestinaKey ns \<in> set keys \<and> \<not> 50000 < nonce + 1")
        case False
        with gen show ?thesis
          by (subst slotLoop.simps, subst (2) slotLoop.simps) (auto simp: fac Let_def)
      next
        case True
        then have d: "\<not> sestinaKey ns \<notin> set keys" and g: "\<not> 50000 < nonce + 1" by simp_all
        have l: "slotLoop rng fac c opts now1 i nonce keys f = slotLoop rng fac c opts now1 i (nonce + 1) keys f0"
          using gen True by (subst slotLoop.simps) (simp add: fac Let_def)
        have r: "slotLoop rng fac c opts now2 i nonce keys f = slotLoop rng fac c opts now2 i (nonce + 1) keys f0"
          using gen True by (subst slotLoop.simps) (simp add: fac Let_def)
        show ?thesis unfolding l r
          by (rule 1(1)[OF refl fac[symmetric] gen refl refl refl d refl g])
      qed
    qed
  qed
qed

lemma slotLoop_clock_cases:
  obtains (diverges) "slotLoop rng fac c opts now1 i nonce keys f = None"
      "slotLoop rng fac c opts now2 i nonce keys f = None"
  | (throws) e ks f' where "slotLoop rng fac c opts now1 i nonce keys f = Some (Inl e, ks, f')"
      "slotLoop rng fac c opts now2 i nonce keys f = Some (Inl e, ks, f')"
  | (accepts) x1 x2 ks f' where "slotLoop rng fac c opts now1 i nonce keys f = Some (Inr x1, ks, f')"
      "slotLoop rng fac c opts now2 i nonce keys f = Some (Inr x2, ks, f')" "nums x1 = nums x2"
proof -
  note eq = slotLoop_clock[of rng fac c opts now1 i nonce keys f now2]
  show ?thesis
  proof (cases "slotLoop rng fac c opts now1 i nonce keys f")
    case None
    with eq have "slotLoop rng fac c opts now2 i nonce keys f = None" by simp
    with None show ?thesis by (rule diverges)
  next
    case (Some y1)
    then obtain y2 where s2: "slotLoop rng fac c opts now2 i nonce keys f = Some y2"
      using eq by (cases "slotLoop rng fac c opts now2 i nonce keys f") auto
    obtain r1 ks1 f1 where y1: "y1 = (r1, ks1, f1)" by (cases y1) auto
    obtain r2 ks2 f2 where y2: "y2 = (r2, ks2, f2)" by (cases y2) auto
    have rel: "map_sum id nums r1 = map_sum id nums r2" "ks2 = ks1" "f2 = f1"
      using eq unfolding Some s2 y1 y2 by simp_all
    show ?thesis
    proof (cases r1)
      case (Inl e)
      then have "r2 = Inl e" using rel(1) by (cases r2) simp_all
      then show ?thesis using throws[of e ks1 f1] Some s2 y1 y2 Inl rel by simp
    next
      case (Inr x1)
      then obtain x2 where "r2 = Inr x2" "nums x1 = nums x2" using rel(1) by (cases r2) simp_all
      then show ?thesis using accepts[of x1 ks1 f1 x2] Some s2 y1 y2 Inr rel by simp
    qed
  qed
qed

lemma forLoop_clock:
  "map nums out1 = map nums out2 \<Longrightarrow>
   map_option (\<lambda>(r, ks, f'). (map_sum id (map nums) r, ks, f'))
     (forLoop rng fac c opts now1 count i out1 keys f) =
   map_option (\<lambda>(r, ks, f'). (map_sum id (map nums) r, ks, f'))
     (forLoop rng fac c opts now2 count i out2 keys f)"
proof (induction rng fac c opts now1 count i out1 keys f arbitrary: out2 rule: forLoop.induct)
  case (1 rng fac c opts now1 count i out1 keys f)
  show ?case
  proof (cases "i < count")
    case False
    have l: "forLoop rng fac c opts now1 count i out1 keys f = Some (Inr out1, keys, f)"
      using False by (subst forLoop.simps) simp
    have r: "forLoop rng fac c opts now2 count i out2 keys f = Some (Inr out2, keys, f)"
      using False by (subst forLoop.simps) simp
    show ?thesis unfolding l r using 1(2) by simp
  next
    case True
    show ?thesis
    proof (cases rule: slotLoop_clock_cases[of rng fac c opts now1 i 0 keys f now2])
      case diverges
      have l: "forLoop rng fac c opts now1 count i out1 keys f = None"
        using True diverges(1) by (subst forLoop.simps) simp
      have r: "forLoop rng fac c opts now2 count i out2 keys f = None"
        using True diverges(2) by (subst forLoop.simps) simp
      show ?thesis unfolding l r by simp
    next
      case (throws e ks f')
      have l: "forLoop rng fac c opts now1 count i out1 keys f = Some (Inl e, ks, f')"
        using True throws(1) by (subst forLoop.simps) simp
      have r: "forLoop rng fac c opts now2 count i out2 keys f = Some (Inl e, ks, f')"
        using True throws(2) by (subst forLoop.simps) simp
      show ?thesis unfolding l r by simp
    next
      case (accepts x1 x2 ks f')
      have l: "forLoop rng fac c opts now1 count i out1 keys f =
               forLoop rng fac c opts now1 count (i + 1) (out1 @ [x1]) ks f'"
        using True accepts(1) by (subst forLoop.simps) simp
      have r: "forLoop rng fac c opts now2 count i out2 keys f =
               forLoop rng fac c opts now2 count (i + 1) (out2 @ [x2]) ks f'"
        using True accepts(2) by (subst forLoop.simps) simp
      have m: "map nums (out1 @ [x1]) = map nums (out2 @ [x2])"
        using 1(2) accepts(3) by simp
      show ?thesis unfolding l r
        by (rule 1(1)[OF True accepts(1) refl refl refl m])
    qed
  qed
qed

lemma allocate_clock_cases:
  obtains (diverges) "generateUniqueSestine count keys rng fac c opts now1 f = None"
      "generateUniqueSestine count keys rng fac c opts now2 f = None"
  | (throws) e ks f' where "generateUniqueSestine count keys rng fac c opts now1 f = Some (Inl e, ks, f')"
      "generateUniqueSestine count keys rng fac c opts now2 f = Some (Inl e, ks, f')"
  | (returns) o1 o2 ks f' where "generateUniqueSestine count keys rng fac c opts now1 f = Some (Inr o1, ks, f')"
      "generateUniqueSestine count keys rng fac c opts now2 f = Some (Inr o2, ks, f')"
      "map nums o1 = map nums o2"
proof -
  let ?a = "generateUniqueSestine count keys rng fac c opts now1 f"
  let ?b = "generateUniqueSestine count keys rng fac c opts now2 f"
  have eq: "map_option (\<lambda>(r, ks, f'). (map_sum id (map nums) r, ks, f')) ?a =
            map_option (\<lambda>(r, ks, f'). (map_sum id (map nums) r, ks, f')) ?b"
    unfolding generateUniqueSestine_def by (rule forLoop_clock) simp
  show ?thesis
  proof (cases ?a)
    case None
    with eq have "?b = None" by simp
    with None show ?thesis by (rule diverges)
  next
    case (Some y1)
    then obtain y2 where s2: "?b = Some y2"
      using eq by (cases ?b) auto
    obtain r1 ks1 f1 where y1: "y1 = (r1, ks1, f1)" by (cases y1) auto
    obtain r2 ks2 f2 where y2: "y2 = (r2, ks2, f2)" by (cases y2) auto
    have rel: "map_sum id (map nums) r1 = map_sum id (map nums) r2" "ks2 = ks1" "f2 = f1"
      using eq unfolding Some s2 y1 y2 by simp_all
    show ?thesis
    proof (cases r1)
      case (Inl e)
      then have "r2 = Inl e" using rel(1) by (cases r2) simp_all
      then show ?thesis using throws[of e ks1 f1] Some s2 y1 y2 Inl rel by simp
    next
      case (Inr o1)
      then obtain o2 where "r2 = Inr o2" "map nums o1 = map nums o2" using rel(1) by (cases r2) simp_all
      then show ?thesis using returns[of o1 ks1 f1 o2] Some s2 y1 y2 Inr rel by simp
    qed
  qed
qed

lemma chunkLoop_clock:
  "abortRequested env1 = abortRequested env2 \<Longrightarrow> map nums all1 = map nums all2 \<Longrightarrow>
   map_option (map_sum id (map_prod (map nums) id))
     (chunkLoop env1 st g c sd b n produced nonceBase all1 keys k) =
   map_option (map_sum id (map_prod (map nums) id))
     (chunkLoop env2 st g c sd b n produced nonceBase all2 keys k)"
proof (induction env1 st g c sd b n produced nonceBase all1 keys k arbitrary: all2 rule: chunkLoop.induct)
  case (1 env1 st g c sd b n produced nonceBase all1 keys k)
  note ab = 1(2)
  show ?case
  proof (cases "produced < n \<and> \<not> abortRequested env1 k")
    case False
    then have f2: "\<not> (produced < n \<and> \<not> abortRequested env2 k)" using ab by simp
    have l: "chunkLoop env1 st g c sd b n produced nonceBase all1 keys k = Some (Inr (all1, k))"
      using False by (subst chunkLoop.simps) auto
    have r: "chunkLoop env2 st g c sd b n produced nonceBase all2 keys k = Some (Inr (all2, k))"
      using f2 by (subst chunkLoop.simps) auto
    show ?thesis unfolding l r using 1(3) by simp
  next
    case True
    then have lt: "produced < n" and na: "\<not> abortRequested env1 k" and na2: "\<not> abortRequested env2 k"
      using ab by simp_all
    let ?take = "min (chunkSize n) (n - produced)"
    let ?fac = "batchRngFactory (seedEnabled (settings st)) sd (id' g) (totalSestine st) b nonceBase"
    show ?thesis
    proof (cases rule: allocate_clock_cases[of ?take keys mulberry32_next ?fac c "batchOptions st sd"
          "clock env1 k" "()" "clock env2 k"])
      case diverges
      have l: "chunkLoop env1 st g c sd b n produced nonceBase all1 keys k = None"
        using lt na diverges(1) by (subst chunkLoop.simps) (simp add: Let_def)
      have r: "chunkLoop env2 st g c sd b n produced nonceBase all2 keys k = None"
        using lt na2 diverges(2) by (subst chunkLoop.simps) (simp add: Let_def)
      show ?thesis unfolding l r by simp
    next
      case (throws e ks f')
      have l: "chunkLoop env1 st g c sd b n produced nonceBase all1 keys k = Some (Inl e)"
        using lt na throws(1) by (subst chunkLoop.simps) (simp add: Let_def)
      have r: "chunkLoop env2 st g c sd b n produced nonceBase all2 keys k = Some (Inl e)"
        using lt na2 throws(2) by (subst chunkLoop.simps) (simp add: Let_def)
      show ?thesis unfolding l r by simp
    next
      case (returns o1 o2 ks f')
      have len: "length o1 = length o2" using returns(3) by (rule map_eq_imp_length_eq)
      have l: "chunkLoop env1 st g c sd b n produced nonceBase all1 keys k =
               chunkLoop env1 st g c sd b n (produced + length o1) (nonceBase + ?take * 3) (all1 @ o1) ks (k + 1)"
        using lt na returns(1) by (subst chunkLoop.simps) (simp add: Let_def)
      have r: "chunkLoop env2 st g c sd b n produced nonceBase all2 keys k =
               chunkLoop env2 st g c sd b n (produced + length o1) (nonceBase + ?take * 3) (all2 @ o2) ks (k + 1)"
        using lt na2 returns(2) len by (subst chunkLoop.simps) (simp add: Let_def)
      have m: "map nums (all1 @ o1) = map nums (all2 @ o2)"
        using 1(3) returns(3) by simp
      show ?thesis unfolding l r
        by (rule 1(1)[OF lt na refl refl returns(1) refl refl refl ab m])
    qed
  qed
qed

lemma combinationsOf_commit:
  assumes "map nums all1 = map nums all2"
  shows "combinationsOf (st\<lparr>groups := map (\<lambda>g'. if id' g' \<noteq> gid then g'
                                     else g'\<lparr>sestine := all1 @ sestine g', events := ev1 # events g'\<rparr>)
                             (groups st)\<rparr>) =
         combinationsOf (st\<lparr>groups := map (\<lambda>g'. if id' g' \<noteq> gid then g'
                                     else g'\<lparr>sestine := all2 @ sestine g', events := ev2 # events g'\<rparr>)
                             (groups st)\<rparr>)"
  using assms by (simp add: combinationsOf_def)

lemma generateForSelectedGroup_clock:
  assumes seeded: "seedEnabled (settings st)"
    and ab: "abortRequested env1 = abortRequested env2"
  shows "map_option (map_prod id combinationsOf) (generateForSelectedGroup env1 st sel cnt c) =
         map_option (map_prod id combinationsOf) (generateForSelectedGroup env2 st sel cnt c)"
proof (cases "selectedGroup st sel")
  case None
  then show ?thesis by (simp add: generateForSelectedGroup_def)
next
  case (Some g)
  let ?n = "requestedCount cnt"
  let ?b = "fst (mulberry32_next (rngFromSeed (seedOf st @ ''::'' @ id' g @ ''::base'')))"
  let ?L1 = "chunkLoop env1 st g c (seedOf st) ?b ?n 0 0 [] (new_Set (globalKeys st)) 0"
  let ?L2 = "chunkLoop env2 st g c (seedOf st) ?b ?n 0 0 [] (new_Set (globalKeys st)) 0"
  have eq: "map_option (map_sum id (map_prod (map nums) id)) ?L1 =
            map_option (map_sum id (map_prod (map nums) id)) ?L2"
    by (rule chunkLoop_clock[OF ab]) simp
  have g1: "generateForSelectedGroup env1 st sel cnt c =
      (case ?L1 of None \<Rightarrow> None
       | Some (Inl e) \<Rightarrow> Some (Failed e, st)
       | Some (Inr (allGenerated, k)) \<Rightarrow>
           if \<not> abortRequested env1 k then
             Some (Committed,
               st\<lparr>groups := map (\<lambda>g'. if id' g' \<noteq> id' g then g'
                                     else g'\<lparr>sestine := allGenerated @ sestine g',
                                             events := Generate (clock env1 k) ?n (Some (seedOf st)) c
                                               # events g'\<rparr>)
                             (groups st)\<rparr>)
           else Some (Cancelled, st))"
    using seeded by (simp add: generateForSelectedGroup_def Some Let_def)
  have g2: "generateForSelectedGroup env2 st sel cnt c =
      (case ?L2 of None \<Rightarrow> None
       | Some (Inl e) \<Rightarrow> Some (Failed e, st)
       | Some (Inr (allGenerated, k)) \<Rightarrow>
           if \<not> abortRequested env2 k then
             Some (Committed,
               st\<lparr>groups := map (\<lambda>g'. if id' g' \<noteq> id' g then g'
                                     else g'\<lparr>sestine := allGenerated @ sestine g',
                                             events := Generate (clock env2 k) ?n (Some (seedOf st)) c
                                               # events g'\<rparr>)
                             (groups st)\<rparr>)
           else Some (Cancelled, st))"
    using seeded by (simp add: generateForSelectedGroup_def Some Let_def)
  show ?thesis
  proof (cases ?L1)
    case None
    with eq have "?L2 = None" by simp
    with None show ?thesis unfolding g1 g2 by simp
  next
    case s1: (Some y1)
    then obtain y2 where s2: "?L2 = Some y2" using eq by (cases ?L2) auto
    have rel: "map_sum id (map_prod (map nums) id) y1 = map_sum id (map_prod (map nums) id) y2"
      using eq unfolding s1 s2 by simp
    show ?thesis
    proof (cases y1)
      case (Inl e)
      then have "y2 = Inl e" using rel by (cases y2) simp_all
      then show ?thesis unfolding g1 g2 s1 s2 Inl by simp
    next
      case (Inr z1)
      then obtain z2 where y2: "y2 = Inr z2" and z: "map_prod (map nums) id z1 = map_prod (map nums) id z2"
        using rel by (cases y2) simp_all
      obtain a1 k1 where z1: "z1 = (a1, k1)" by force
      obtain a2 k2 where z2: "z2 = (a2, k2)" by force
      have k: "k2 = k1" and m: "map nums a1 = map nums a2" using z unfolding z1 z2 by simp_all
      show ?thesis
      proof (cases "abortRequested env1 k1")
        case True
        then have "abortRequested env2 k1" using ab by simp
        with True show ?thesis unfolding g1 g2 s1 s2 Inr y2 z1 z2 k by simp
      next
        case False
        then have "\<not> abortRequested env2 k1" using ab by simp
        with False show ?thesis unfolding g1 g2 s1 s2 Inr y2 z1 z2 k
          by (simp add: combinationsOf_commit[OF m])
      qed
    qed
  qed
qed

lemma hash_S_g_0_0: "rngFromSeed ''S::g::0::0'' = 3908115471"
  by (simp add: rngFromSeed_def xfnv1a_init_def xfnv1a_next_def mulberry32_def Let_def)

lemma hash_S_g_1_0: "rngFromSeed ''S::g::1::0'' = 2127720235"
  by (simp add: rngFromSeed_def xfnv1a_init_def xfnv1a_next_def mulberry32_def Let_def)

lemma sampler_five_total0:
  "generateRandomSestinaWithConstraints mulberry32_next fiveFixed 3908115471 =
     Some (Inr [1, 2, 3, 4, 5, 43], 1444713988)"
  unfolding fiveFixed_def
  by (subst generateRandomSestinaWithConstraints.simps) (simp add: eval_simps)

lemma sampler_five_total1:
  "generateRandomSestinaWithConstraints mulberry32_next fiveFixed 2127720235 =
     Some (Inr [1, 2, 3, 4, 5, 14], 1495884565)"
  unfolding fiveFixed_def
  by (subst generateRandomSestinaWithConstraints.simps) (simp add: eval_simps)

lemma allocate_one_first_try:
  assumes "generateRandomSestinaWithConstraints rng c (fst (fac 0 f)) = Some (Inr ns, s')"
    and "sestinaKey ns \<notin> set keys"
  shows "generateUniqueSestine (Suc 0) keys rng fac c opts now f =
      Some (Inr [\<lparr>nums = ns, key = sestinaKey ns, createdAt = now, frozen = False,
               meta = Some \<lparr>seed = (case opts of None \<Rightarrow> None | Some opt \<Rightarrow> opt_seed opt),
                            attemptNonce = 0,
                            superstitionMode =
                              (case opts of None \<Rightarrow> None | Some opt \<Rightarrow> opt_superstitionMode opt)\<rparr>\<rparr>],
            keys @ [sestinaKey ns], snd (fac 0 f))"
proof -
  have slot: "slotLoop rng fac c opts now 0 0 keys f =
      Some (Inr \<lparr>nums = ns, key = sestinaKey ns, createdAt = now, frozen = False,
               meta = Some \<lparr>seed = (case opts of None \<Rightarrow> None | Some opt \<Rightarrow> opt_seed opt),
                            attemptNonce = 0,
                            superstitionMode =
                              (case opts of None \<Rightarrow> None | Some opt \<Rightarrow> opt_superstitionMode opt)\<rparr>\<rparr>,
            keys @ [sestinaKey ns], snd (fac 0 f))"
  proof -
    obtain r0 f0 where fac: "fac 0 f = (r0, f0)" by force
    note gen = assms(1)[unfolded fac fst_conv]
    show ?thesis
      using assms(2)
      by (subst slotLoop.simps) (simp add: fac gen set_add_def Let_def)
  qed
  show ?thesis
    unfolding generateUniqueSestine_def
    by (subst forLoop.simps, simp add: slot, subst forLoop.simps, simp)
qed

lemma seeded_batch_run:
  assumes "\<not> abortRequested env 0" "\<not> abortRequested env 1"
  shows "generateForSelectedGroup env seededState (Some ''g'') (Some 1) fiveFixed =
    Some (Committed,
      seededState\<lparr>groups :=
        [\<lparr>id' = ''g'', name = ''Gruppo 1'', createdAt = 0,
          sestine = [\<lparr>nums = [1, 2, 3, 4, 5, 43], key = ''1-2-3-4-5-43'', createdAt = clock env 0,
                       frozen = False,
                       meta = Some \<lparr>seed = Some ''S'', attemptNonce = 0, superstitionMode = Some False\<rparr>\<rparr>],
          events = [Generate (clock env 1) 1 (Some ''S'') fiveFixed]\<rparr>]\<rparr>)"
proof -
  have gen: "generateRandomSestinaWithConstraints mulberry32_next fiveFixed
       (fst (batchRngFactory True ''S'' ''g'' 0 b 0 0 ())) = Some (Inr [1, 2, 3, 4, 5, 43], 1444713988)" for b
    by (simp add: batchRngFactory_def showNat.simps digitChar_def hash_S_g_0_0 sampler_five_total0)
  have k: "sestinaKey [1, 2, 3, 4, 5, 43] = ''1-2-3-4-5-43''"
    by (simp add: key_simps)
  have alloc: "generateUniqueSestine (Suc 0) [] mulberry32_next (batchRngFactory True ''S'' ''g'' 0 b 0)
      fiveFixed opts now () =
      Some (Inr [\<lparr>nums = [1, 2, 3, 4, 5, 43], key = ''1-2-3-4-5-43'', createdAt = now, frozen = False,
               meta = Some \<lparr>seed = (case opts of None \<Rightarrow> None | Some opt \<Rightarrow> opt_seed opt),
                            attemptNonce = 0,
                            superstitionMode =
                              (case opts of None \<Rightarrow> None | Some opt \<Rightarrow> opt_superstitionMode opt)\<rparr>\<rparr>],
            [''1-2-3-4-5-43''], ())" for b opts now
    using allocate_one_first_try[where fac = "batchRngFactory True ''S'' ''g'' 0 b 0" and f = "()"
        and rng = mulberry32_next and c = fiveFixed and ns = "[1, 2, 3, 4, 5, 43]" and keys = "[]"
        and opts = opts and now = now, OF gen]
    by (simp add: k)
  show ?thesis
    using assms
    by (simp add: generateForSelectedGroup_def selectedGroup_def seededState_def requestedCount_def
        globalKeys_def new_Set_def seedOf_def trim_def isWhiteSpace_def Let_def chunkLoop.simps
        chunkSize_def totalSestine_def batchOptions_def alloc)
qed

lemma seeded_batch_run_one_more:
  "generateForSelectedGroup exampleEnv seededStateOneMore (Some ''g'') (Some 1) fiveFixed =
    Some (Committed,
      seededStateOneMore\<lparr>groups :=
        [\<lparr>id' = ''g'', name = ''Gruppo 1'', createdAt = 0,
          sestine = [\<lparr>nums = [1, 2, 3, 4, 5, 14], key = ''1-2-3-4-5-14'', createdAt = 1000,
                       frozen = False,
                       meta = Some \<lparr>seed = Some ''S'', attemptNonce = 0, superstitionMode = Some False\<rparr>\<rparr>],
          events = [Generate 1000 1 (Some ''S'') fiveFixed]\<rparr>,
         \<lparr>id' = ''h'', name = ''Gruppo 2'', createdAt = 1, sestine = [exampleFrozen], events = []\<rparr>]\<rparr>)"
proof -
  have gen: "generateRandomSestinaWithConstraints mulberry32_next fiveFixed
       (fst (batchRngFactory True ''S'' ''g'' 1 b 0 0 ())) = Some (Inr [1, 2, 3, 4, 5, 14], 1495884565)" for b
    by (simp add: batchRngFactory_def showNat.simps digitChar_def hash_S_g_1_0 sampler_five_total1)
  have k: "sestinaKey [1, 2, 3, 4, 5, 14] = ''1-2-3-4-5-14''"
    by (simp add: key_simps)
  have alloc: "generateUniqueSestine (Suc 0) [''3-9-27-45-63-81''] mulberry32_next
      (batchRngFactory True ''S'' ''g'' (Suc 0) b 0) fiveFixed opts now () =
      Some (Inr [\<lparr>nums = [1, 2, 3, 4, 5, 14], key = ''1-2-3-4-5-14'', createdAt = now, frozen = False,
               meta = Some \<lparr>seed = (case opts of None \<Rightarrow> None | Some opt \<Rightarrow> opt_seed opt),
                            attemptNonce = 0,
                            superstitionMode =
                              (case opts of None \<Rightarrow> None | Some opt \<Rightarrow> opt_superstitionMode opt)\<rparr>\<rparr>],
            [''3-9-27-45-63-81'', ''1-2-3-4-5-14''], ())" for b opts now
    using allocate_one_first_try[where fac = "batchRngFactory True ''S'' ''g'' 1 b 0" and f = "()"
        and rng = mulberry32_next and c = fiveFixed and ns = "[1, 2, 3, 4, 5, 14]"
        and keys = "[''3-9-27-45-63-81'']" and opts = opts and now = now, OF gen]
    by (simp add: k)
  show ?thesis
    by (simp add: generateForSelectedGroup_def selectedGroup_def seededStateOneMore_def exampleEnv_def
        exampleFrozen_def requestedCount_def
        globalKeys_def new_Set_def set_add_def seedOf_def trim_def isWhiteSpace_def Let_def chunkLoop.simps
        chunkSize_def totalSestine_def batchOptions_def alloc)
qed

text \<open>
  Claim C2, as the code has it. With seeding on, the stream of an attempt is derived from
  the seed string, the group's identity, the total number of stored combinations and the
  sum of the nonce base and the nonce, and from nothing else. Two batch requests on the
  same state, for the same group, count and constraints, that are cancelled at the same
  points, end alike and generate the same combinations, whatever entropy and clock each of
  them reads.
\<close>

theorem seeded_batch_deterministic:
  "seedEnabled (settings st) \<Longrightarrow> abortRequested env1 = abortRequested env2 \<Longrightarrow>
     (nonceBase1 + nonce1 = nonceBase2 + nonce2 \<longrightarrow>
        batchRngFactory True sd gid totalCount b1 nonceBase1 nonce1 f =
        batchRngFactory True sd gid totalCount b2 nonceBase2 nonce2 f) \<and>
     map_option (map_prod id combinationsOf) (generateForSelectedGroup env1 st sel cnt c) =
     map_option (map_prod id combinationsOf) (generateForSelectedGroup env2 st sel cnt c)"
  using generateForSelectedGroup_clock[of st env1 env2 sel cnt c]
  by (simp add: batchRngFactory_def Let_def)

text \<open>Two runs under different entropy and clocks.\<close>

theorem seeded_batch_deterministic_witness:
  "map_option (map_prod id combinationsOf)
     (generateForSelectedGroup \<lparr>entropy = (\<lambda>k. 7), clock = (\<lambda>k. 1000), abortRequested = (\<lambda>k. False)\<rparr>
        seededState (Some ''g'') (Some 1) fiveFixed) = Some (Committed, [[[1, 2, 3, 4, 5, 43]]]) \<and>
   map_option (map_prod id combinationsOf)
     (generateForSelectedGroup \<lparr>entropy = (\<lambda>k. 99), clock = (\<lambda>k. 2000 + int k), abortRequested = (\<lambda>k. False)\<rparr>
        seededState (Some ''g'') (Some 1) fiveFixed) = Some (Committed, [[[1, 2, 3, 4, 5, 43]]])"
proof -
  let ?e1 = "\<lparr>entropy = (\<lambda>k. 7), clock = (\<lambda>k. 1000), abortRequested = (\<lambda>k. False)\<rparr>"
  let ?e2 = "\<lparr>entropy = (\<lambda>k. 99), clock = (\<lambda>k. 2000 + int k), abortRequested = (\<lambda>k. False)\<rparr>"
  have s: "seedEnabled (settings seededState)" by (simp add: seededState_def)
  have a: "abortRequested ?e1 = abortRequested ?e2" by simp
  have one: "map_option (map_prod id combinationsOf)
     (generateForSelectedGroup ?e1 seededState (Some ''g'') (Some 1) fiveFixed) =
     Some (Committed, [[[1, 2, 3, 4, 5, 43]]])"
    by (simp add: seeded_batch_run combinationsOf_def)
  from seeded_batch_deterministic[OF s a, where sel = "Some ''g''" and cnt = "Some 1" and c = fiveFixed]
  have "map_option (map_prod id combinationsOf)
          (generateForSelectedGroup ?e1 seededState (Some ''g'') (Some 1) fiveFixed) =
        map_option (map_prod id combinationsOf)
          (generateForSelectedGroup ?e2 seededState (Some ''g'') (Some 1) fiveFixed)"
    by (rule conjunct2)
  with one show ?thesis by simp
qed

text \<open>Claim C2 as stated fails: the same seed string, group, constraints, slot and nonce
  give another combination once another group holds a combination, because the total
  number of stored combinations is part of the derivation.\<close>

theorem seeded_stream_depends_on_total_counterexample:
  "seedOf seededState = seedOf seededStateOneMore \<and>
   map_option (map_prod id combinationsOf)
     (generateForSelectedGroup exampleEnv seededState (Some ''g'') (Some 1) fiveFixed) =
     Some (Committed, [[[1, 2, 3, 4, 5, 43]]]) \<and>
   map_option (map_prod id combinationsOf)
     (generateForSelectedGroup exampleEnv seededStateOneMore (Some ''g'') (Some 1) fiveFixed) =
     Some (Committed, [[[1, 2, 3, 4, 5, 14]], [[3, 9, 27, 45, 63, 81]]])"
proof -
  have a: "seedOf seededState = seedOf seededStateOneMore"
    by (simp add: seedOf_def seededState_def seededStateOneMore_def)
  have run: "generateForSelectedGroup exampleEnv seededState (Some ''g'') (Some 1) fiveFixed =
    Some (Committed,
      seededState\<lparr>groups :=
        [\<lparr>id' = ''g'', name = ''Gruppo 1'', createdAt = 0,
          sestine = [\<lparr>nums = [1, 2, 3, 4, 5, 43], key = ''1-2-3-4-5-43'', createdAt = clock exampleEnv 0,
                       frozen = False,
                       meta = Some \<lparr>seed = Some ''S'', attemptNonce = 0, superstitionMode = Some False\<rparr>\<rparr>],
          events = [Generate (clock exampleEnv 1) 1 (Some ''S'') fiveFixed]\<rparr>]\<rparr>)"
    by (rule seeded_batch_run) (simp_all add: exampleEnv_def)
  have b: "map_option (map_prod id combinationsOf)
     (generateForSelectedGroup exampleEnv seededState (Some ''g'') (Some 1) fiveFixed) =
     Some (Committed, [[[1, 2, 3, 4, 5, 43]]])"
    unfolding run by (simp add: combinationsOf_def)
  have c: "map_option (map_prod id combinationsOf)
     (generateForSelectedGroup exampleEnv seededStateOneMore (Some ''g'') (Some 1) fiveFixed) =
     Some (Committed, [[[1, 2, 3, 4, 5, 14]], [[3, 9, 27, 45, 63, 81]]])"
    unfolding seeded_batch_run_one_more by (simp add: combinationsOf_def exampleFrozen_def)
  from a b c show ?thesis by (intro conjI)
qed

section \<open>In-place mutation of the key set\<close>

lemma forLoop_prefix:
  assumes "forLoop rng fac c opts now count i out keys f = Some (r, keys', f')"
  shows "\<exists>new fj.
           forLoop rng fac c opts now (i + length new) i out keys f = Some (Inr (out @ new), keys', fj) \<and>
           (case r of
              Inr out' \<Rightarrow> out' = out @ new \<and> length new = count - i
            | Inl e \<Rightarrow> i + length new < count \<and>
                slotLoop rng fac c opts now (i + length new) 0 keys' fj = Some (Inl e, keys', f'))"
  using assms
proof (induction rng fac c opts now count i out keys f rule: forLoop.induct)
  case (1 rng fac c opts now count i out keys f)
  note run = 1(2)[unfolded forLoop.simps[of rng fac c opts now count i out keys f]]
  have stop: "forLoop rng fac c opts now i i out keys f = Some (Inr out, keys, f)"
    by (subst forLoop.simps) simp
  show ?case
  proof (cases "i < count")
    case False
    with run have "r = Inr out" "keys' = keys" by simp_all
    then show ?thesis using False stop
      by (intro exI[of _ "[]"] exI[of _ f]) simp
  next
    case True
    note lt = this
    show ?thesis
    proof (cases "slotLoop rng fac c opts now i 0 keys f")
      case None
      with run lt show ?thesis by simp
    next
      case (Some y)
      obtain res k1 f1 where y: "y = (res, k1, f1)" by (cases y) auto
      note slot = slotLoop_Some[OF Some[unfolded y]]
      show ?thesis
      proof (cases res)
        case (Inl e)
        then have "r = Inl e" "keys' = k1" "f' = f1" using run lt Some y by simp_all
        moreover have "k1 = keys" using slot Inl by simp
        ultimately show ?thesis using lt stop Some y Inl
          by (intro exI[of _ "[]"] exI[of _ f]) simp
      next
        case (Inr x)
        have rec: "forLoop rng fac c opts now count (i + 1) (out @ [x]) k1 f1 = Some (r, keys', f')"
          using run lt Some y Inr by simp
        from 1(1)[OF lt Some[unfolded y Inr] refl refl refl rec]
        obtain new fj where
          pre: "forLoop rng fac c opts now (i + 1 + length new) (i + 1) (out @ [x]) k1 f1 =
                  Some (Inr ((out @ [x]) @ new), keys', fj)"
          and res: "case r of
              Inr out' \<Rightarrow> out' = (out @ [x]) @ new \<and> length new = count - (i + 1)
            | Inl e \<Rightarrow> i + 1 + length new < count \<and>
                slotLoop rng fac c opts now (i + 1 + length new) 0 keys' fj = Some (Inl e, keys', f')"
          by blast
        have len: "i + length (x # new) = i + 1 + length new" by simp
        have a: "forLoop rng fac c opts now (i + length (x # new)) i out keys f =
                   Some (Inr (out @ (x # new)), keys', fj)"
          unfolding len
          by (subst forLoop.simps) (simp add: Some y Inr pre[simplified])
        have b: "case r of
              Inr out' \<Rightarrow> out' = out @ (x # new) \<and> length (x # new) = count - i
            | Inl e \<Rightarrow> i + length (x # new) < count \<and>
                slotLoop rng fac c opts now (i + length (x # new)) 0 keys' fj = Some (Inl e, keys', f')"
          using res lt unfolding len by (cases r) auto
        from a b show ?thesis by blast
      qed
    qed
  qed
qed

lemma allocate_prefix:
  assumes "generateUniqueSestine count keys rng fac c opts now f = Some (r, keys', f')"
  shows "\<exists>accepted fj.
           generateUniqueSestine (length accepted) keys rng fac c opts now f =
             Some (Inr accepted, keys', fj) \<and>
           keys' = keys @ map key accepted \<and>
           (case r of
              Inr out \<Rightarrow> out = accepted \<and> length accepted = count
            | Inl e \<Rightarrow> length accepted < count \<and>
                slotLoop rng fac c opts now (length accepted) 0 keys' fj = Some (Inl e, keys', f'))"
proof -
  from forLoop_prefix[OF assms[unfolded generateUniqueSestine_def]]
  obtain new fj where
    pre: "forLoop rng fac c opts now (0 + length new) 0 [] keys f = Some (Inr ([] @ new), keys', fj)"
    and res: "case r of
              Inr out' \<Rightarrow> out' = [] @ new \<and> length new = count - 0
            | Inl e \<Rightarrow> 0 + length new < count \<and>
                slotLoop rng fac c opts now (0 + length new) 0 keys' fj = Some (Inl e, keys', f')"
    by blast
  from forLoop_Some[OF pre]
  have k: "keys' = keys @ map key new" by auto
  have a: "generateUniqueSestine (length new) keys rng fac c opts now f = Some (Inr new, keys', fj)"
    using pre by (simp add: generateUniqueSestine_def)
  have b: "case r of
              Inr out \<Rightarrow> out = new \<and> length new = count
            | Inl e \<Rightarrow> length new < count \<and>
                slotLoop rng fac c opts now (length new) 0 keys' fj = Some (Inl e, keys', f')"
    using res by (cases r) simp_all
  from a k b show ?thesis by blast
qed

lemma cells_Set_write: "cells (Set_write h a xs) x = (if x = a then xs else cells h x)"
  by (simp add: Set_write_def)

lemma generateUniqueSestine_ref_frame:
  assumes "generateUniqueSestine_ref count a h rng fac c opts now f = Some (r, h', f')"
    and "x \<noteq> a"
  shows "cells h' x = cells h x"
  using assms
  by (auto simp: generateUniqueSestine_ref_def cells_Set_write split: option.splits)

lemma Set_copy_cells:
  assumes "Set_copy h x = (keys, h1)"
  shows "keys = nextRef h" "cells h1 keys = new_Set (cells h x)"
    "\<And>y. y \<noteq> keys \<Longrightarrow> cells h1 y = cells h y"
  using assms by (auto simp: Set_copy_def)

lemma release_fold_cells:
  "cells (foldl (\<lambda>h' x. if \<not> frozen x then Set_write h' keys (set_delete (cells h' keys) (key x))
                             else h') h xs) y =
   (if y = keys
    then foldl (\<lambda>ks x. if \<not> frozen x then set_delete ks (key x) else ks) (cells h keys) xs
    else cells h y)"
  by (induction xs arbitrary: h) (simp_all add: cells_Set_write)

lemma chunkLoop_ref_frame:
  "chunkLoop_ref env st g c sd b n produced nonceBase allGenerated keys h k = Some (r, h') \<Longrightarrow>
   x \<noteq> keys \<Longrightarrow> cells h' x = cells h x"
proof (induction env st g c sd b n produced nonceBase allGenerated keys h k rule: chunkLoop_ref.induct)
  case (1 env st g c sd b n produced nonceBase allGenerated keys h k)
  note run = 1(2)[unfolded chunkLoop_ref.simps[of env st g c sd b n produced nonceBase allGenerated keys h k]]
  show ?case
  proof (cases "produced < n \<and> \<not> abortRequested env k")
    case False
    with run show ?thesis by (auto split: if_splits)
  next
    case True
    then have lt: "produced < n" and na: "\<not> abortRequested env k" by simp_all
    let ?take = "min (chunkSize n) (n - produced)"
    let ?fac = "batchRngFactory (seedEnabled (settings st)) sd (id' g) (totalSestine st) b nonceBase"
    let ?call = "generateUniqueSestine_ref ?take keys h mulberry32_next ?fac c (batchOptions st sd) (clock env k) ()"
    show ?thesis
    proof (cases ?call)
      case None
      with run lt na show ?thesis by (simp add: Let_def)
    next
      case (Some y)
      obtain res h1 u where y: "y = (res, h1, u)" by (cases y) auto
      have fr: "cells h1 x = cells h x"
        using generateUniqueSestine_ref_frame[OF Some[unfolded y] 1(3)] .
      show ?thesis
      proof (cases res)
        case (Inl e)
        with run lt na Some y have "h' = h1" by (simp add: Let_def)
        with fr show ?thesis by simp
      next
        case (Inr chunk)
        have rec: "chunkLoop_ref env st g c sd b n (produced + length chunk) (nonceBase + ?take * 3)
                       (allGenerated @ chunk) keys h1 (k + 1) = Some (r, h')"
          using run lt na Some y Inr by (simp add: Let_def)
        from 1(1)[OF lt na refl refl Some[unfolded y Inr] refl refl refl rec 1(3)] fr
        show ?thesis by simp
      qed
    qed
  qed
qed

lemma chunkLoop_ref_chunkLoop:
  "map_option fst (chunkLoop_ref env st g c sd b n produced nonceBase allGenerated keys h k) =
   chunkLoop env st g c sd b n produced nonceBase allGenerated (cells h keys) k"
proof (induction env st g c sd b n produced nonceBase allGenerated keys h k rule: chunkLoop_ref.induct)
  case (1 env st g c sd b n produced nonceBase allGenerated keys h k)
  let ?take = "min (chunkSize n) (n - produced)"
  let ?fac = "batchRngFactory (seedEnabled (settings st)) sd (id' g) (totalSestine st) b nonceBase"
  let ?call = "generateUniqueSestine ?take (cells h keys) mulberry32_next ?fac c (batchOptions st sd) (clock env k) ()"
  show ?case
  proof (cases "produced < n \<and> \<not> abortRequested env k")
    case False
    then show ?thesis
      by (subst chunkLoop_ref.simps, subst chunkLoop.simps) auto
  next
    case True
    then have lt: "produced < n" and na: "\<not> abortRequested env k" by simp_all
    show ?thesis
    proof (cases ?call)
      case None
      then show ?thesis using lt na
        by (subst chunkLoop_ref.simps, subst chunkLoop.simps)
           (simp add: Let_def generateUniqueSestine_ref_def)
    next
      case (Some y)
      obtain res k1 u where y: "y = (res, k1, u)" by (cases y) auto
      have call: "generateUniqueSestine_ref ?take keys h mulberry32_next ?fac c (batchOptions st sd)
                    (clock env k) () = Some (res, Set_write h keys k1, u)"
        using Some y by (simp add: generateUniqueSestine_ref_def)
      have ck: "cells (Set_write h keys k1) keys = k1" by (simp add: Set_write_def)
      show ?thesis
      proof (cases res)
        case (Inl e)
        then show ?thesis using lt na Some y call
          by (subst chunkLoop_ref.simps, subst chunkLoop.simps) (simp add: Let_def)
      next
        case (Inr chunk)
        note ih = 1(1)[OF lt na refl refl call[unfolded Inr] refl refl refl, unfolded ck]
        show ?thesis using lt na Some y call Inr ih
          by (subst chunkLoop_ref.simps, subst chunkLoop.simps) (simp add: Let_def)
      qed
    qed
  qed
qed

lemma generateForSelectedGroup_ref_frame:
  assumes run: "generateForSelectedGroup_ref env st gk h sel cnt c = Some (outcome, st', h')"
    and gk: "gk < nextRef h"
  shows "cells h' gk = cells h gk \<and> (outcome \<noteq> Committed \<longrightarrow> st' = st)"
proof (cases "selectedGroup st sel")
  case None
  with run show ?thesis by (simp add: generateForSelectedGroup_ref_def)
next
  case (Some g)
  obtain keys h1 where cp: "Set_copy h gk = (keys, h1)" by force
  have ne: "gk \<noteq> keys" using Set_copy_cells(1)[OF cp] gk by simp
  have c1: "cells h1 gk = cells h gk" by (rule Set_copy_cells(3)[OF cp ne])
  let ?b = "fst (mulberry32_next (if seedEnabled (settings st)
                          then rngFromSeed (seedOf st @ ''::'' @ id' g @ ''::base'')
                          else mulberry32 (entropy env 0)))"
  let ?loop = "chunkLoop_ref env st g c (seedOf st) ?b (requestedCount cnt) 0 0 [] keys h1 0"
  note r = run[unfolded generateForSelectedGroup_ref_def Some option.case Let_def cp prod.case]
  show ?thesis
  proof (cases ?loop)
    case None
    with r show ?thesis by simp
  next
    case loop: (Some y)
    obtain res h2 where y: "y = (res, h2)" by force
    have c2: "cells h2 gk = cells h1 gk"
      by (rule chunkLoop_ref_frame[OF loop[unfolded y] ne])
    have "h' = h2" "outcome \<noteq> Committed \<longrightarrow> st' = st"
      using r loop y by (auto split: sum.splits prod.splits if_splits)
    with c1 c2 show ?thesis by simp
  qed
qed

lemma generateForSelectedGroup_ref_pure:
  assumes gk: "cells h gk = globalKeys st"
  shows "map_option (\<lambda>(outcome, st', h'). (outcome, st')) (generateForSelectedGroup_ref env st gk h sel cnt c) =
         generateForSelectedGroup env st sel cnt c"
proof (cases "selectedGroup st sel")
  case None
  then show ?thesis by (simp add: generateForSelectedGroup_ref_def generateForSelectedGroup_def)
next
  case (Some g)
  obtain keys h1 where cp: "Set_copy h gk = (keys, h1)" by force
  have k: "cells h1 keys = new_Set (globalKeys st)" using Set_copy_cells(2)[OF cp] gk by simp
  let ?b = "fst (mulberry32_next (if seedEnabled (settings st)
                          then rngFromSeed (seedOf st @ ''::'' @ id' g @ ''::base'')
                          else mulberry32 (entropy env 0)))"
  let ?loop = "chunkLoop_ref env st g c (seedOf st) ?b (requestedCount cnt) 0 0 [] keys h1 0"
  have pure: "chunkLoop env st g c (seedOf st) ?b (requestedCount cnt) 0 0 [] (new_Set (globalKeys st)) 0 =
              map_option fst ?loop"
    using chunkLoop_ref_chunkLoop[of env st g c "seedOf st" ?b "requestedCount cnt" 0 0 "[]" keys h1 0]
    unfolding k by simp
  show ?thesis
    unfolding generateForSelectedGroup_ref_def generateForSelectedGroup_def Some option.case Let_def cp
      prod.case pure
    by (cases ?loop) (auto split: sum.splits prod.splits)
qed

lemma regenerateNonFrozenInGroup_ref_frame:
  assumes run: "regenerateNonFrozenInGroup_ref env st gk h groupId c = Some (outcome, st', h')"
    and gk: "gk < nextRef h"
  shows "cells h' gk = cells h gk \<and> (outcome \<noteq> Committed \<longrightarrow> st' = st)"
proof (cases "find (\<lambda>x. id' x = groupId) (groups st)")
  case None
  with run show ?thesis by (simp add: regenerateNonFrozenInGroup_ref_def)
next
  case (Some g)
  obtain keys h1 where cp: "Set_copy h gk = (keys, h1)" by force
  have ne: "gk \<noteq> keys" using Set_copy_cells(1)[OF cp] gk by simp
  have c1: "cells h1 gk = cells h gk" by (rule Set_copy_cells(3)[OF cp ne])
  let ?cnt = "int (length (sestine g)) - int (length (filter frozen (sestine g)))"
  let ?h2 = "foldl (\<lambda>h' x. if \<not> frozen x then Set_write h' keys (set_delete (cells h' keys) (key x))
                             else h') h1 (sestine g)"
  have c2: "cells ?h2 gk = cells h1 gk" using ne by (simp add: release_fold_cells)
  let ?call = "generateUniqueSestine_ref (nat ?cnt) keys ?h2 mulberry32_next
                 (regenRngFactory env (seedEnabled (settings st)) (seedOf st) (id' g)) c
                 (batchOptions st (seedOf st)) (clock env 0) 0"
  note r = run[unfolded regenerateNonFrozenInGroup_ref_def Some option.case Let_def cp prod.case]
  show ?thesis
  proof (cases "?cnt \<le> 0")
    case True
    with r show ?thesis by simp
  next
    case False
    show ?thesis
    proof (cases ?call)
      case None
      with r False show ?thesis by simp
    next
      case call: (Some y)
      obtain res h3 f1 where y: "y = (res, h3, f1)" by (cases y) auto
      have c3: "cells h3 gk = cells ?h2 gk"
        by (rule generateUniqueSestine_ref_frame[OF call[unfolded y] ne])
      have "h' = h3" "outcome \<noteq> Committed \<longrightarrow> st' = st"
        using r False call y by (auto split: sum.splits)
      with c1 c2 c3 show ?thesis by simp
    qed
  qed
qed

lemma regenerateNonFrozenInGroup_ref_pure:
  assumes gk: "cells h gk = globalKeys st"
  shows "map_option (\<lambda>(outcome, st', h'). (outcome, st')) (regenerateNonFrozenInGroup_ref env st gk h groupId c) =
         regenerateNonFrozenInGroup env st groupId c"
proof (cases "find (\<lambda>x. id' x = groupId) (groups st)")
  case None
  then show ?thesis by (simp add: regenerateNonFrozenInGroup_ref_def regenerateNonFrozenInGroup_def)
next
  case (Some g)
  obtain keys h1 where cp: "Set_copy h gk = (keys, h1)" by force
  let ?cnt = "int (length (sestine g)) - int (length (filter frozen (sestine g)))"
  let ?h2 = "foldl (\<lambda>h' x. if \<not> frozen x then Set_write h' keys (set_delete (cells h' keys) (key x))
                             else h') h1 (sestine g)"
  have k: "cells ?h2 keys = releasedKeys st g"
    using Set_copy_cells(2)[OF cp] gk by (simp add: release_fold_cells releasedKeys_def)
  let ?fac = "regenRngFactory env (seedEnabled (settings st)) (seedOf st) (id' g)"
  let ?pure = "generateUniqueSestine (nat ?cnt) (releasedKeys st g) mulberry32_next ?fac c
                 (batchOptions st (seedOf st)) (clock env 0) 0"
  have call: "generateUniqueSestine_ref (nat ?cnt) keys ?h2 mulberry32_next ?fac c
                 (batchOptions st (seedOf st)) (clock env 0) 0 =
              map_option (\<lambda>(r, keys', f'). (r, Set_write ?h2 keys keys', f')) ?pure"
    unfolding generateUniqueSestine_ref_def k by (auto split: option.splits)
  show ?thesis
    unfolding regenerateNonFrozenInGroup_ref_def regenerateNonFrozenInGroup_def Some option.case Let_def cp
      prod.case call
    by (cases ?pure) (auto split: sum.splits prod.splits)
qed

lemma allocate_ref_throw_example:
  "generateUniqueSestine_ref 2 0 exampleHeap mulberry32_next (\<lambda>nonce f. (mulberry32 (of_nat nonce), f))
     sixFixed None 1000 () =
   Some (Inl UniquenessExhausted, Set_write exampleHeap 0 [''1-2-3-4-5-6''], ())"
  by (simp add: generateUniqueSestine_ref_def exampleHeap_def allocate_two_sixFixed)

lemma batch_ref_failed_example:
  "generateForSelectedGroup_ref exampleEnv exampleState 0 exampleHeap (Some ''g'') (Some 2) sixFixed =
   Some (Failed UniquenessExhausted, exampleState,
         Set_write (snd (Set_copy exampleHeap 0)) 1 [''1-2-3-4-5-6''])"
  by (simp add: generateForSelectedGroup_ref_def selectedGroup_def exampleState_def requestedCount_def
        exampleEnv_def exampleHeap_def Set_copy_def new_Set_def seedOf_def Let_def chunkLoop_ref.simps
        chunkSize_def generateUniqueSestine_ref_def allocate_two_sixFixed)

text \<open>
  Claim C10. The allocator writes the set object it is passed and no other. When it
  returns or throws, that object holds the old keys followed by the keys of the slots
  accepted so far, in order: the result of the run over just those slots. After a throw
  they are fewer than \<open>count\<close>, the next slot is the one that throws, and unless no slot
  was accepted the set of the caller has changed. The two callers apply the allocator to
  a new copy of the global key set, whose own object is therefore the same after the call
  as before it, however the call ends; unless it commits, the state is unchanged too. With
  the global key set of the state in the store, the operations over the store are the
  state-passing ones.
\<close>

theorem allocate_mutates_in_place:
  "(generateUniqueSestine_ref count existingKeys h rng rngFactory c options now f = Some (r, h', f') \<longrightarrow>
      (\<exists>accepted fj.
         generateUniqueSestine (length accepted) (cells h existingKeys) rng rngFactory c options now f =
           Some (Inr accepted, cells h' existingKeys, fj) \<and>
         cells h' existingKeys = cells h existingKeys @ map key accepted \<and>
         (\<forall>x. x \<noteq> existingKeys \<longrightarrow> cells h' x = cells h x) \<and>
         (case r of
            Inr out \<Rightarrow> out = accepted \<and> length accepted = count
          | Inl e \<Rightarrow>
              length accepted < count \<and>
              slotLoop rng rngFactory c options now (length accepted) 0 (cells h' existingKeys) fj =
                Some (Inl e, cells h' existingKeys, f') \<and>
              (accepted \<noteq> [] \<longrightarrow> cells h' existingKeys \<noteq> cells h existingKeys)))) \<and>
   (gk < nextRef h \<and> generateForSelectedGroup_ref env st gk h sel cnt c1 = Some (o1, st1, h1) \<longrightarrow>
      cells h1 gk = cells h gk \<and> (o1 \<noteq> Committed \<longrightarrow> st1 = st)) \<and>
   (gk < nextRef h \<and> regenerateNonFrozenInGroup_ref env st gk h groupId c2 = Some (o2, st2, h2) \<longrightarrow>
      cells h2 gk = cells h gk \<and> (o2 \<noteq> Committed \<longrightarrow> st2 = st)) \<and>
   (cells h gk = globalKeys st \<longrightarrow>
      map_option (\<lambda>(outcome, st', h'). (outcome, st')) (generateForSelectedGroup_ref env st gk h sel cnt c1) =
        generateForSelectedGroup env st sel cnt c1 \<and>
      map_option (\<lambda>(outcome, st', h'). (outcome, st')) (regenerateNonFrozenInGroup_ref env st gk h groupId c2) =
        regenerateNonFrozenInGroup env st groupId c2)"
proof (intro conjI impI)
  assume run: "generateUniqueSestine_ref count existingKeys h rng rngFactory c options now f = Some (r, h', f')"
  note pure = generateUniqueSestine_ref_Some(1)[OF run]
  from allocate_prefix[OF pure]
  obtain accepted fj where
    a: "generateUniqueSestine (length accepted) (cells h existingKeys) rng rngFactory c options now f =
          Some (Inr accepted, cells h' existingKeys, fj)"
    and b: "cells h' existingKeys = cells h existingKeys @ map key accepted"
    and d: "case r of
              Inr out \<Rightarrow> out = accepted \<and> length accepted = count
            | Inl e \<Rightarrow> length accepted < count \<and>
                slotLoop rng rngFactory c options now (length accepted) 0 (cells h' existingKeys) fj =
                  Some (Inl e, cells h' existingKeys, f')"
    by blast
  have fr: "\<forall>x. x \<noteq> existingKeys \<longrightarrow> cells h' x = cells h x"
    using generateUniqueSestine_ref_frame[OF run] by simp
  have ch: "accepted \<noteq> [] \<longrightarrow> cells h' existingKeys \<noteq> cells h existingKeys"
    unfolding b by simp
  have d': "case r of
            Inr out \<Rightarrow> out = accepted \<and> length accepted = count
          | Inl e \<Rightarrow>
              length accepted < count \<and>
              slotLoop rng rngFactory c options now (length accepted) 0 (cells h' existingKeys) fj =
                Some (Inl e, cells h' existingKeys, f') \<and>
              (accepted \<noteq> [] \<longrightarrow> cells h' existingKeys \<noteq> cells h existingKeys)"
    using d ch by (cases r) simp_all
  show "\<exists>accepted fj.
         generateUniqueSestine (length accepted) (cells h existingKeys) rng rngFactory c options now f =
           Some (Inr accepted, cells h' existingKeys, fj) \<and>
         cells h' existingKeys = cells h existingKeys @ map key accepted \<and>
         (\<forall>x. x \<noteq> existingKeys \<longrightarrow> cells h' x = cells h x) \<and>
         (case r of
            Inr out \<Rightarrow> out = accepted \<and> length accepted = count
          | Inl e \<Rightarrow>
              length accepted < count \<and>
              slotLoop rng rngFactory c options now (length accepted) 0 (cells h' existingKeys) fj =
                Some (Inl e, cells h' existingKeys, f') \<and>
              (accepted \<noteq> [] \<longrightarrow> cells h' existingKeys \<noteq> cells h existingKeys))"
    by (intro exI[of _ accepted] exI[of _ fj] conjI a b fr d')
next
  assume "gk < nextRef h \<and> generateForSelectedGroup_ref env st gk h sel cnt c1 = Some (o1, st1, h1)"
  then have *: "cells h1 gk = cells h gk \<and> (o1 \<noteq> Committed \<longrightarrow> st1 = st)"
    using generateForSelectedGroup_ref_frame by blast
  from * show "cells h1 gk = cells h gk" by simp
  assume "o1 \<noteq> Committed"
  with * show "st1 = st" by simp
next
  assume "gk < nextRef h \<and> regenerateNonFrozenInGroup_ref env st gk h groupId c2 = Some (o2, st2, h2)"
  then have *: "cells h2 gk = cells h gk \<and> (o2 \<noteq> Committed \<longrightarrow> st2 = st)"
    using regenerateNonFrozenInGroup_ref_frame by blast
  from * show "cells h2 gk = cells h gk" by simp
  assume "o2 \<noteq> Committed"
  with * show "st2 = st" by simp
next
  assume gk: "cells h gk = globalKeys st"
  show "map_option (\<lambda>(outcome, st', h'). (outcome, st')) (generateForSelectedGroup_ref env st gk h sel cnt c1) =
        generateForSelectedGroup env st sel cnt c1"
    by (rule generateForSelectedGroup_ref_pure[OF gk])
  show "map_option (\<lambda>(outcome, st', h'). (outcome, st')) (regenerateNonFrozenInGroup_ref env st gk h groupId c2) =
        regenerateNonFrozenInGroup env st groupId c2"
    by (rule regenerateNonFrozenInGroup_ref_pure[OF gk])
qed

text \<open>Two slots where only one combination exists, the second slot throwing. Applied to
  the global key set itself, the object at reference 0, the allocator leaves the key of
  the first slot in it. The batch of two fails as well, but it worked on the copy at
  reference 1: the stray key is there, and the global key set is still empty.\<close>

theorem allocate_mutates_in_place_witness:
  "map_option (\<lambda>(r, h', f'). (r, cells h' 0))
     (generateUniqueSestine_ref 2 0 exampleHeap mulberry32_next (\<lambda>nonce f. (mulberry32 (of_nat nonce), f))
        sixFixed None 1000 ()) =
     Some (Inl UniquenessExhausted, [''1-2-3-4-5-6'']) \<and>
   (\<exists>accepted :: Sestina list. map key accepted = [''1-2-3-4-5-6''] \<and> length accepted < 2) \<and>
   cells exampleHeap 0 = globalKeys exampleState \<and> globalKeys exampleState = [] \<and>
   map_option (\<lambda>(outcome, st', h'). (outcome, st', cells h' 0, cells h' 1))
     (generateForSelectedGroup_ref exampleEnv exampleState 0 exampleHeap (Some ''g'') (Some 2) sixFixed) =
     Some (Failed UniquenessExhausted, exampleState, [], [''1-2-3-4-5-6'']) \<and>
   generateForSelectedGroup exampleEnv exampleState (Some ''g'') (Some 2) sixFixed =
     Some (Failed UniquenessExhausted, exampleState)"
proof -
  note inst = allocate_mutates_in_place[where count = 2 and existingKeys = 0 and h = exampleHeap
      and rng = mulberry32_next and rngFactory = "\<lambda>nonce f. (mulberry32 (of_nat nonce), f)"
      and c = sixFixed and options = None and now = 1000 and f = "()"
      and r = "Inl UniquenessExhausted" and h' = "Set_write exampleHeap 0 [''1-2-3-4-5-6'']" and f' = "()"
      and gk = 0 and env = exampleEnv and st = exampleState and sel = "Some ''g''" and cnt = "Some 2"
      and ?c1.0 = sixFixed and ?o1.0 = "Failed UniquenessExhausted" and ?st1.0 = exampleState
      and ?h1.0 = "Set_write (snd (Set_copy exampleHeap 0)) 1 [''1-2-3-4-5-6'']"]
  have keys: "cells exampleHeap 0 = globalKeys exampleState" "globalKeys exampleState = []"
    by (simp_all add: exampleHeap_def globalKeys_def exampleState_def)
  have alloc: "map_option (\<lambda>(r, h', f'). (r, cells h' 0))
     (generateUniqueSestine_ref 2 0 exampleHeap mulberry32_next (\<lambda>nonce f. (mulberry32 (of_nat nonce), f))
        sixFixed None 1000 ()) =
     Some (Inl UniquenessExhausted, [''1-2-3-4-5-6''])"
    by (simp add: allocate_ref_throw_example cells_Set_write)
  from inst[THEN conjunct1] allocate_ref_throw_example
  have "\<exists>(accepted :: Sestina list) fj :: unit.
          cells (Set_write exampleHeap 0 [''1-2-3-4-5-6'']) 0 = cells exampleHeap 0 @ map key accepted \<and>
          length accepted < 2"
    by (auto simp del: One_nat_def)
  then obtain accepted :: "Sestina list"
    where a: "cells (Set_write exampleHeap 0 [''1-2-3-4-5-6'']) 0 = cells exampleHeap 0 @ map key accepted"
      and b: "length accepted < 2"
    by (elim exE conjE)
  have a': "map key accepted = [''1-2-3-4-5-6'']"
    using a by (simp add: cells_Set_write exampleHeap_def)
  have ex: "\<exists>accepted :: Sestina list. map key accepted = [''1-2-3-4-5-6''] \<and> length accepted < 2"
    by (intro exI[of _ accepted] conjI a' b)
  have batch: "map_option (\<lambda>(outcome, st', h'). (outcome, st', cells h' 0, cells h' 1))
     (generateForSelectedGroup_ref exampleEnv exampleState 0 exampleHeap (Some ''g'') (Some 2) sixFixed) =
     Some (Failed UniquenessExhausted, exampleState, [], [''1-2-3-4-5-6''])"
    unfolding batch_ref_failed_example
    by (simp add: cells_Set_write Set_copy_def exampleHeap_def)
  have pure: "generateForSelectedGroup exampleEnv exampleState (Some ''g'') (Some 2) sixFixed =
     Some (Failed UniquenessExhausted, exampleState)"
    using inst[THEN conjunct2, THEN conjunct2, THEN conjunct2] keys(1)
    by (simp add: batch_ref_failed_example)
  from alloc ex keys batch pure show ?thesis by (intro conjI)
qed

end
